theory Spec2Isabelle
  imports Main "HOL-Library.Sublist"
begin

section \<open>The S3 provider of the web application (apps/web/hooks/useS3.tsx)\<close>

text \<open>
  The hook \<^verbatim>\<open>S3Provider\<close> keeps React state (files, folders, loading, the current
  folder), a bucket-scoped item of the browser's local storage, and talks to an object
  store through \<^verbatim>\<open>s3Client.send\<close>. The embedding makes all of it explicit:
  the state is a record that every operation takes and returns, the store client is a
  parameter, a rejected promise is the completion \<open>Threw\<close>, and the requests sent and the
  error toasts shown are recorded in the state, oldest first.

  Strings are lists of characters, compared and searched character by character as the
  JavaScript string operations do on their code units.
\<close>

subsection \<open>Errors and completions\<close>

datatype error = StoreError string | TypeError string | URIError string

fun message :: "error \<Rightarrow> string" where
  "message (StoreError m) = m"
| "message (TypeError m) = m"
| "message (URIError m) = m"

text \<open>How an \<^verbatim>\<open>async\<close> function ends: its promise resolves to a value or rejects.\<close>

datatype 'a completion = Returned 'a | Threw error

subsection \<open>Data\<close>


record S3Tag =
  TagKey :: string
  TagValue :: string

text \<open>
  \<^verbatim>\<open>DriveFolder\<close> and \<^verbatim>\<open>DriveFile\<close> share their first fields; a file adds size, content type
  and signed URL. \<^verbatim>\<open>createdAt\<close> is absent on a folder derived from a remote listing.
\<close>

record DriveItem =
  fullPath :: string
  name :: string
  parent :: string
  createdAt :: "string option"
  bucketName :: string
  bucketUrl :: string

type_synonym DriveFolder = DriveItem

record DriveFile = DriveItem +
  size :: string
  contentType :: string
  url :: string

text \<open>An entry of \<^verbatim>\<open>Contents\<close>; \<^verbatim>\<open>LastModified\<close> is held in its ISO form.\<close>

record S3Object =
  Key :: string
  LastModified :: string
  Size :: nat

text \<open>
  The answer to \<^verbatim>\<open>ListObjectsV2Command\<close>, with the fields the code reads and the cursor
  field it does not read. \<^verbatim>\<open>Contents\<close> and \<^verbatim>\<open>CommonPrefixes\<close> may be undefined (\<open>None\<close>);
  each common prefix is held as its \<^verbatim>\<open>Prefix\<close> string.
\<close>

record ListObjectsV2Output =
  Contents :: "S3Object list option"
  CommonPrefixes :: "string list option"
  IsTruncated :: bool
  ContinuationToken :: "string option"
  NextContinuationToken :: "string option"
  Name :: string

text \<open>
  The commands passed to \<^verbatim>\<open>s3Client.send\<close>. A listing carries Bucket, Prefix and the
  optional Delimiter and ContinuationToken; a multi-key delete carries Bucket and the keys
  of \<^verbatim>\<open>Delete.Objects\<close>; the tagging commands carry Bucket, Key and, for a put, the tag set.
\<close>

datatype request =
  ListObjectsV2Command string string "string option" "string option"
| DeleteObjectsCommand string "string list"
| GetObjectTaggingCommand string string
| PutObjectTaggingCommand string string "S3Tag list"

text \<open>
  The store behind the client, over any type \<open>'s\<close> of store states. A request is answered
  from the store's state; a rejected request (\<open>Inl\<close>) and a read leave the store as it was.
\<close>

record 's S3Client =
  ListObjectsV2 :: "'s \<Rightarrow> string \<Rightarrow> string \<Rightarrow> string option \<Rightarrow> string option
                      \<Rightarrow> error + ListObjectsV2Output"
  DeleteObjects :: "'s \<Rightarrow> string \<Rightarrow> string list \<Rightarrow> error + 's"
  GetObjectTagging :: "'s \<Rightarrow> string \<Rightarrow> string \<Rightarrow> error + S3Tag list"
  PutObjectTagging :: "'s \<Rightarrow> string \<Rightarrow> string \<Rightarrow> S3Tag list \<Rightarrow> error + 's"

text \<open>
  What the provider is given: the drive (\<^verbatim>\<open>data.id\<close>, \<^verbatim>\<open>data.keys.Bucket\<close>,
  \<^verbatim>\<open>data.keys.bucketUrl\<close>), whether a user is logged in, and the library functions it
  calls (\<^verbatim>\<open>mime.lookup\<close>, which answers false (\<open>None\<close>) for an unknown type, and
  \<^verbatim>\<open>getSignedUrl\<close> for a bucket and a key). \<^verbatim>\<open>enableTags\<close> is the constant of line 55,
  computed from the \<^verbatim>\<open>Provider\<close> table of @util/types, and \<^verbatim>\<open>ROOT_FOLDER\<close> is the constant
  imported from ./useBucket; neither file is among the sources, so both are taken as given.
\<close>

record S3Provider =
  data_id :: string
  Bucket :: string
  data_bucketUrl :: string
  enableTags :: bool
  ROOT_FOLDER :: DriveFolder
  user_email :: "string option"
  mime_lookup :: "string \<Rightarrow> string option"
  getSignedUrl :: "string \<Rightarrow> string \<Rightarrow> string"

text \<open>The state of the hook, the local storage item and the store.\<close>

record 's world =
  remote :: 's
  requests :: "request list"
  toasts :: "string list"
  files :: "DriveFile list option"
  folders :: "DriveFolder list option"
  loading :: bool
  currentFolder :: "DriveFolder option"
  localStorage :: "DriveFolder list option"

definition sent :: "request \<Rightarrow> 's world \<Rightarrow> 's world" where
  "sent r w = w\<lparr>requests := requests w @ [r]\<rparr>"

definition toast_error :: "string \<Rightarrow> 's world \<Rightarrow> 's world" where
  "toast_error m w = w\<lparr>toasts := toasts w @ [m]\<rparr>"

subsection \<open>String.prototype.trim\<close>



subsection \<open>Tags (lines 238 to 320)\<close>



definition removeTags ::
  "'s S3Client \<Rightarrow> S3Provider \<Rightarrow> 'a DriveItem_scheme \<Rightarrow> string \<Rightarrow> 's world
     \<Rightarrow> bool completion \<times> 's world" where
  "removeTags c d file k w =
     (let w1 = sent (GetObjectTaggingCommand (Bucket d) (fullPath file)) w in
      case GetObjectTagging c (remote w1) (Bucket d) (fullPath file) of
        Inl err \<Rightarrow> (Threw err, w1)
      | Inr existingTags \<Rightarrow>
          let updatedTags = filter (\<lambda>tag. TagKey tag \<noteq> k) existingTags;
              w2 = sent (PutObjectTaggingCommand (Bucket d) (fullPath file) updatedTags) w1
          in (case PutObjectTagging c (remote w2) (Bucket d) (fullPath file) updatedTags of
                Inr s' \<Rightarrow> (Returned True, w2\<lparr>remote := s'\<rparr>)
              | Inl err \<Rightarrow> (Returned False, toast_error (''Error: '' @ message err) w2)))"


subsection \<open>String helpers: includes, split, pop, shift, toString\<close>

text \<open>\<^verbatim>\<open>s.includes(t)\<close>: \<open>t\<close> occurs in \<open>s\<close> at some position.\<close>

fun str_includes :: "string \<Rightarrow> string \<Rightarrow> bool" where
  "str_includes [] t = (t = [])"
| "str_includes (c # s) t = (prefix t (c # s) \<or> str_includes s t)"

text \<open>\<^verbatim>\<open>s.split(sep)\<close> for a separator of one character: never an empty array.\<close>

fun split_on :: "char \<Rightarrow> string \<Rightarrow> string list" where
  "split_on sep [] = [[]]"
| "split_on sep (c # s) =
     (if c = sep then [] # split_on sep s
      else (case split_on sep s of p # ps \<Rightarrow> (c # p) # ps | [] \<Rightarrow> [[c]]))"

text \<open>\<^verbatim>\<open>pop\<close> and \<^verbatim>\<open>shift\<close> answer undefined (\<open>None\<close>) on an empty array.\<close>

definition pop :: "'a list \<Rightarrow> 'a option" where
  "pop xs = (if xs = [] then None else Some (last xs))"

definition shift :: "'a list \<Rightarrow> 'a option" where
  "shift xs = (case xs of [] \<Rightarrow> None | x # _ \<Rightarrow> Some x)"

text \<open>
  \<^verbatim>\<open>Key.split("/").pop()\<close>, the name given to a listed file (lines 362 and 420). The array
  that \<^verbatim>\<open>split\<close> returns is never empty, so the \<open>None\<close> branch is never taken.
\<close>

definition leafName :: "string \<Rightarrow> string" where
  "leafName k = (case pop (split_on CHR ''/'' k) of Some n \<Rightarrow> n | None \<Rightarrow> [])"

text \<open>\<^verbatim>\<open>Number.prototype.toString\<close> on a natural number: its decimal digits.\<close>

function toString :: "nat \<Rightarrow> string" where
  "toString n =
     (if n < 10 then [char_of (48 + n)]
      else toString (n div 10) @ [char_of (48 + n mod 10)])"
  by pat_completeness auto
termination
  by (relation "measure id") auto

declare toString.simps [simp del]

subsection \<open>decodeURIComponent\<close>

text \<open>
  The decoding of ECMA-262 (Decode with an empty set of preserved escapes), on strings
  held as UTF-8: a character other than the percent sign is copied; a percent sign must be
  followed by two hexadecimal digits, which give an octet; an octet below 0x80 stands for
  itself, and an octet with two, three or four leading one bits must be followed by that
  many escaped octets less one, the whole a well-formed UTF-8 sequence, which is the
  decoded character. Anything else is a \<^verbatim>\<open>URIError\<close>.
\<close>

definition hex_value :: "char \<Rightarrow> nat option" where
  "hex_value c =
     (let n = (of_char c :: nat) in
      if 48 \<le> n \<and> n \<le> 57 then Some (n - 48)
      else if 65 \<le> n \<and> n \<le> 70 then Some (n - 55)
      else if 97 \<le> n \<and> n \<le> 102 then Some (n - 87)
      else None)"

text \<open>The escapes read off: each item is an escaped octet (\<open>True\<close>) or a plain character.\<close>

fun unescape :: "string \<Rightarrow> (bool \<times> char) list option" where
  "unescape [] = Some []"
| "unescape (c # s) =
     (if c = CHR ''%'' then
        (case s of
           h # l # rest \<Rightarrow>
             (case (hex_value h, hex_value l) of
                (Some a, Some b) \<Rightarrow>
                  map_option ((#) (True, char_of (16 * a + b))) (unescape rest)
              | _ \<Rightarrow> None)
         | _ \<Rightarrow> None)
      else map_option ((#) (False, c)) (unescape s))"

definition leading_ones :: "nat \<Rightarrow> nat" where
  "leading_ones B =
     (if B < 0x80 then 0 else if B < 0xC0 then 1 else if B < 0xE0 then 2
      else if B < 0xF0 then 3 else if B < 0xF8 then 4 else 5)"

definition continuation :: "nat \<Rightarrow> bool" where
  "continuation b = (0x80 \<le> b \<and> b \<le> 0xBF)"

text \<open>The well-formed UTF-8 sequences of two to four octets (Unicode, table 3-7).\<close>

fun valid_utf8 :: "nat list \<Rightarrow> bool" where
  "valid_utf8 [b0, b1] = (0xC2 \<le> b0 \<and> b0 \<le> 0xDF \<and> continuation b1)"
| "valid_utf8 [b0, b1, b2] =
     (((b0 = 0xE0 \<and> 0xA0 \<le> b1 \<and> b1 \<le> 0xBF)
       \<or> (0xE1 \<le> b0 \<and> b0 \<le> 0xEC \<and> continuation b1)
       \<or> (b0 = 0xED \<and> 0x80 \<le> b1 \<and> b1 \<le> 0x9F)
       \<or> (0xEE \<le> b0 \<and> b0 \<le> 0xEF \<and> continuation b1))
      \<and> continuation b2)"
| "valid_utf8 [b0, b1, b2, b3] =
     (((b0 = 0xF0 \<and> 0x90 \<le> b1 \<and> b1 \<le> 0xBF)
       \<or> (0xF1 \<le> b0 \<and> b0 \<le> 0xF3 \<and> continuation b1)
       \<or> (b0 = 0xF4 \<and> 0x80 \<le> b1 \<and> b1 \<le> 0x8F))
      \<and> continuation b2 \<and> continuation b3)"
| "valid_utf8 _ = False"

fun decode_items :: "(bool \<times> char) list \<Rightarrow> string option" where
  "decode_items [] = Some []"
| "decode_items ((esc, B) # items) =
     (if \<not> esc \<or> leading_ones (of_char B) = 0
      then map_option ((#) B) (decode_items items)
      else
        let n = leading_ones (of_char B); more = take (n - 1) items in
        if n = 1 \<or> n > 4 \<or> length more < n - 1 \<or> \<not> list_all fst more
           \<or> \<not> valid_utf8 (map of_char (B # map snd more))
        then None
        else map_option ((@) (B # map snd more)) (decode_items (drop (n - 1) items)))"

definition decodeURIComponent :: "string \<Rightarrow> error + string" where
  "decodeURIComponent s =
     (case unescape s of
        None \<Rightarrow> Inl (URIError ''URI malformed'')
      | Some items \<Rightarrow>
          (case decode_items items of
             None \<Rightarrow> Inl (URIError ''URI malformed'')
           | Some r \<Rightarrow> Inr r))"

subsection \<open>The store key of an upload (addFile, lines 116 to 128)\<close>

text \<open>The characters of the regular expression of line 118.\<close>

definition reserved :: "char \<Rightarrow> bool" where
  "reserved c = (c \<in> set ''#$[]*/'')"

text \<open>
  What \<^verbatim>\<open>addFile\<close> does for one file before it starts the upload: the two checks on the
  name, each ending in a toast and no upload (\<open>Returned None\<close>), then the key of the upload
  (\<open>Returned (Some Key)\<close>). Reading \<^verbatim>\<open>fullPath\<close> of a current folder that is still null
  throws, and so does a malformed escape in the folder's path.
\<close>

definition addFile_Key ::
  "S3Provider \<Rightarrow> string \<Rightarrow> 's world \<Rightarrow> string option completion \<times> 's world" where
  "addFile_Key d file_name w =
     (if list_ex reserved file_name
      then (Returned None,
            toast_error ''File name cannot contain special characters (#$[]*/).'' w)
      else if (case files w of
                 None \<Rightarrow> False
               | Some fs \<Rightarrow> length (filter (\<lambda>f. name f = file_name) fs) > 0)
      then (Returned None, toast_error ''File with same name already exists.'' w)
      else
        (case currentFolder w of
           None \<Rightarrow>
             (Threw (TypeError ''Cannot read properties of null (reading 'fullPath')''), w)
         | Some cf \<Rightarrow>
             if cf = ROOT_FOLDER d then (Returned (Some file_name), w)
             else
               (case decodeURIComponent (fullPath cf) of
                  Inl err \<Rightarrow> (Threw err, w)
                | Inr p \<Rightarrow> (Returned (Some (p @ file_name)), w))))"

subsection \<open>The folder index in local storage (addFolder, removeFolder)\<close>

text \<open>
  The item \<^verbatim>\<open>local_folders_<data.id>\<close> holds a JSON array of folders; the model holds the
  array itself, \<open>None\<close> while the item is absent. \<open>now\<close> is \<^verbatim>\<open>new Date().toISOString()\<close>.
  An updater passed to \<^verbatim>\<open>setFolders\<close> while the folders are still null leaves them null.
\<close>

definition addFolder ::
  "S3Provider \<Rightarrow> string \<Rightarrow> string \<Rightarrow> 's world \<Rightarrow> unit completion \<times> 's world" where
  "addFolder d nm now w =
     (case currentFolder w of
        None \<Rightarrow> (Threw (TypeError ''Cannot read properties of null (reading 'fullPath')''), w)
      | Some cf \<Rightarrow>
          (case (if fullPath cf \<noteq> []
                 then map_sum id (\<lambda>p. p @ nm @ ''/'') (decodeURIComponent (fullPath cf))
                 else Inr (nm @ ''/'')) of
             Inl err \<Rightarrow> (Threw err, w)
           | Inr path \<Rightarrow>
               let newFolder =
                     \<lparr>fullPath = path, name = nm, parent = fullPath cf, createdAt = Some now,
                      bucketName = Bucket d, bucketUrl = data_bucketUrl d\<rparr>;
                   w1 = w\<lparr>folders := map_option (\<lambda>fs. fs @ [newFolder]) (folders w)\<rparr>;
                   stored = (case localStorage w1 of None \<Rightarrow> [] | Some fs \<Rightarrow> fs)
               in (Returned (), w1\<lparr>localStorage := Some (stored @ [newFolder])\<rparr>)))"

subsection \<open>Recursive delete (emptyS3Directory, lines 474 to 494)\<close>

text \<open>
  The function calls itself for every common prefix of the answer and again for the same
  prefix after a truncated page, so nothing bounds its depth. The first argument bounds
  the depth of the calls: \<open>None\<close> says the bound was reached, with the state at that point.
  \<^verbatim>\<open>emptyS3Directory_each\<close> is the \<^verbatim>\<open>for\<close> loop over the common prefixes.
\<close>

fun emptyS3Directory ::
    "nat \<Rightarrow> 's S3Client \<Rightarrow> string \<Rightarrow> string \<Rightarrow> 's world \<Rightarrow> unit completion option \<times> 's world"
  and emptyS3Directory_each ::
    "nat \<Rightarrow> 's S3Client \<Rightarrow> string \<Rightarrow> string list \<Rightarrow> 's world
       \<Rightarrow> unit completion option \<times> 's world"
where
  "emptyS3Directory 0 client B P w = (None, w)"
| "emptyS3Directory (Suc n) client B P w =
     (let w1 = sent (ListObjectsV2Command B P None None) w in
      case ListObjectsV2 client (remote w1) B P None None of
        Inl err \<Rightarrow> (Some (Threw err), w1)
      | Inr listedObjects \<Rightarrow>
          (case emptyS3Directory_each n client B
                  (case CommonPrefixes listedObjects of None \<Rightarrow> [] | Some ps \<Rightarrow> ps) w1 of
             (Some (Returned _), w2) \<Rightarrow>
               (case Contents listedObjects of
                  None \<Rightarrow>
                    (Some (Threw (TypeError
                       ''Cannot read properties of undefined (reading 'length')'')), w2)
                | Some cs \<Rightarrow>
                    if length cs = 0 then (Some (Returned ()), w2)
                    else
                      let w3 = sent (DeleteObjectsCommand B (map Key cs)) w2 in
                      (case DeleteObjects client (remote w3) B (map Key cs) of
                         Inl err \<Rightarrow> (Some (Threw err), w3)
                       | Inr s' \<Rightarrow>
                           if IsTruncated listedObjects
                           then emptyS3Directory n client B P (w3\<lparr>remote := s'\<rparr>)
                           else (Some (Returned ()), w3\<lparr>remote := s'\<rparr>)))
           | (Some (Threw err), w2) \<Rightarrow> (Some (Threw err), w2)
           | (None, w2) \<Rightarrow> (None, w2)))"
| "emptyS3Directory_each n client B [] w = (Some (Returned ()), w)"
| "emptyS3Directory_each n client B (p # ps) w =
     (case emptyS3Directory n client B p w of
        (Some (Returned _), w1) \<Rightarrow> emptyS3Directory_each n client B ps w1
      | (Some (Threw err), w1) \<Rightarrow> (Some (Threw err), w1)
      | (None, w1) \<Rightarrow> (None, w1))"

definition removeFolder ::
  "nat \<Rightarrow> 's S3Client \<Rightarrow> S3Provider \<Rightarrow> DriveFolder \<Rightarrow> 's world
     \<Rightarrow> unit completion option \<times> 's world" where
  "removeFolder n client d folder w =
     (let w1 = w\<lparr>folders :=
                  map_option (filter (\<lambda>f. fullPath f \<noteq> fullPath folder)) (folders w)\<rparr>;
          w2 = (case localStorage w1 of
                  None \<Rightarrow> w1
                | Some stored \<Rightarrow>
                    w1\<lparr>localStorage :=
                         Some (filter (\<lambda>f. \<not> str_includes (fullPath f) (fullPath folder))
                                 stored)\<rparr>)
      in emptyS3Directory n client (bucketName folder) (fullPath folder) w2)"

subsection \<open>Navigation and listing (the effects of lines 322 to 446)\<close>

text \<open>
  The first effect, for the \<^verbatim>\<open>fullPath\<close> property of the provider (\<open>None\<close> when it is not
  given): files and folders are reset and the current folder is the root or a folder
  whose path is the property with a slash appended.
\<close>

definition set_currentFolder :: "S3Provider \<Rightarrow> string option \<Rightarrow> 's world \<Rightarrow> 's world" where
  "set_currentFolder d fullPath_prop w =
     (if user_email d = None \<or> user_email d = Some [] then w
      else
        let w1 = w\<lparr>files := None, folders := None\<rparr> in
        case fullPath_prop of
          None \<Rightarrow> w1\<lparr>currentFolder := Some (ROOT_FOLDER d)\<rparr>
        | Some fp \<Rightarrow>
            if fp = [] then w1\<lparr>currentFolder := Some (ROOT_FOLDER d)\<rparr>
            else w1\<lparr>currentFolder := Some
                   \<lparr>fullPath = fp @ ''/'',
                    name = (case pop (split_on CHR ''/'' fp) of Some n \<Rightarrow> n | None \<Rightarrow> []),
                    parent = (case shift (split_on CHR ''/'' fp) of Some n \<Rightarrow> n | None \<Rightarrow> [])
                             @ ''/'',
                    createdAt = None,
                    bucketName = Bucket d, bucketUrl = data_bucketUrl d\<rparr>\<rparr>)"

text \<open>
  The file built from one entry of \<^verbatim>\<open>Contents\<close>, and \<^verbatim>\<open>setFiles\<close> with the updater that
  appends it. The callbacks of \<^verbatim>\<open>forEach\<close> append once the URL is signed; the model
  appends in the order of the page, at the place of the \<^verbatim>\<open>forEach\<close>.
\<close>

definition driveFile ::
  "S3Provider \<Rightarrow> DriveFolder \<Rightarrow> ListObjectsV2Output \<Rightarrow> S3Object \<Rightarrow> DriveFile" where
  "driveFile d cf results result =
     \<lparr>fullPath = Key result, name = leafName (Key result), parent = fullPath cf,
      createdAt = Some (LastModified result), bucketName = Name results,
      bucketUrl = data_bucketUrl d, size = toString (Size result),
      contentType = (case mime_lookup d (Key result) of Some t \<Rightarrow> t | None \<Rightarrow> []),
      url = getSignedUrl d (Name results) (Key result)\<rparr>"

definition setFiles_append :: "DriveFile \<Rightarrow> 's world \<Rightarrow> 's world" where
  "setFiles_append f w =
     w\<lparr>files := Some ((case files w of None \<Rightarrow> [] | Some fs \<Rightarrow> fs) @ [f])\<rparr>"

definition add_Contents ::
  "S3Provider \<Rightarrow> DriveFolder \<Rightarrow> ListObjectsV2Output \<Rightarrow> S3Object list \<Rightarrow> 's world \<Rightarrow> 's world"
  where
  "add_Contents d cf results cs w =
     foldl (\<lambda>w' result. setFiles_append (driveFile d cf results result) w') w cs"

text \<open>
  The folder built from one common prefix (lines 395 to 402); \<^verbatim>\<open>slice(0, -1)\<close> drops the
  last character.
\<close>

definition driveFolder :: "S3Provider \<Rightarrow> DriveFolder \<Rightarrow> ListObjectsV2Output \<Rightarrow> string \<Rightarrow> DriveFolder"
  where
  "driveFolder d cf results p =
     \<lparr>fullPath = p, name = leafName (butlast p), parent = fullPath cf, createdAt = None,
      bucketName = Name results, bucketUrl = data_bucketUrl d\<rparr>"

text \<open>
  The loop of lines 407 to 438. It runs while the last answer is truncated, so the first
  argument bounds its iterations: \<open>None\<close> says the bound was reached with the answer still
  truncated, and the state is the one reached.
\<close>

fun list_more ::
  "nat \<Rightarrow> 's S3Client \<Rightarrow> S3Provider \<Rightarrow> DriveFolder \<Rightarrow> ListObjectsV2Output \<Rightarrow> 's world
     \<Rightarrow> unit completion option \<times> 's world" where
  "list_more 0 client d cf results w =
     (if IsTruncated results then (None, w) else (Some (Returned ()), w))"
| "list_more (Suc n) client d cf results w =
     (if \<not> IsTruncated results then (Some (Returned ()), w)
      else
        let w1 = sent (ListObjectsV2Command (Bucket d) (fullPath cf) (Some ''/'')
                         (ContinuationToken results)) w in
        case ListObjectsV2 client (remote w1) (Bucket d) (fullPath cf) (Some ''/'')
               (ContinuationToken results) of
          Inl err \<Rightarrow> (Some (Threw err), w1)
        | Inr results' \<Rightarrow>
            (case Contents results' of
               None \<Rightarrow>
                 (Some (Threw (TypeError
                    ''Cannot read properties of undefined (reading 'forEach')'')), w1)
             | Some cs \<Rightarrow> list_more n client d cf results' (add_Contents d cf results' cs w1)))"

text \<open>The body of the \<^verbatim>\<open>try\<close> block (lines 349 to 439) when the files are still null.\<close>

definition list_folder ::
  "nat \<Rightarrow> 's S3Client \<Rightarrow> S3Provider \<Rightarrow> DriveFolder \<Rightarrow> 's world
     \<Rightarrow> unit completion option \<times> 's world" where
  "list_folder n client d cf w =
     (let w1 = sent (ListObjectsV2Command (Bucket d) (fullPath cf) (Some ''/'') None) w in
      case ListObjectsV2 client (remote w1) (Bucket d) (fullPath cf) (Some ''/'') None of
        Inl err \<Rightarrow> (Some (Threw err), w1)
      | Inr results \<Rightarrow>
          let w2 = (case Contents results of
                      None \<Rightarrow> w1
                    | Some cs \<Rightarrow> add_Contents d cf results cs w1);
              localFoldersArray =
                filter
                  (\<lambda>folder. parent folder = fullPath cf \<and>
                     \<not> (case CommonPrefixes results of
                          None \<Rightarrow> False
                        | Some ps \<Rightarrow> list_ex (\<lambda>cp. cp = fullPath folder) ps))
                  (case localStorage w2 of None \<Rightarrow> [] | Some stored \<Rightarrow> stored);
              w3 = w2\<lparr>folders := Some localFoldersArray\<rparr>;
              w4 = (case CommonPrefixes results of
                      None \<Rightarrow> w3
                    | Some ps \<Rightarrow>
                        foldl (\<lambda>w' p. w'\<lparr>folders :=
                                 map_option (\<lambda>fs. fs @ [driveFolder d cf results p])
                                   (folders w')\<rparr>) w3 ps)
          in list_more n client d cf results w4)"

text \<open>
  The second effect (lines 343 to 446): nothing without a user or a current folder;
  otherwise loading is set, the folder is listed if the files are null, an exception is
  caught and logged, and loading is cleared.
\<close>

definition listing_effect ::
  "nat \<Rightarrow> 's S3Client \<Rightarrow> S3Provider \<Rightarrow> 's world \<Rightarrow> unit completion option \<times> 's world" where
  "listing_effect n client d w =
     (if user_email d = None \<or> user_email d = Some [] then (Some (Returned ()), w)
      else
        case currentFolder w of
          None \<Rightarrow> (Some (Returned ()), w)
        | Some cf \<Rightarrow>
            let w0 = w\<lparr>loading := True\<rparr> in
            (case files w0 of
               Some _ \<Rightarrow> (Some (Returned ()), w0\<lparr>loading := False\<rparr>)
             | None \<Rightarrow>
                 (case list_folder n client d cf w0 of
                    (None, w1) \<Rightarrow> (None, w1)
                  | (Some _, w1) \<Rightarrow> (Some (Returned ()), w1\<lparr>loading := False\<rparr>))))"

subsection \<open>Stores to run the operations on\<close>

text \<open>
  A store of tag sets by object key: a get or a put on a key it does not hold is
  rejected, a put replaces the tag set of the key. It answers no listing and no delete.
\<close>

definition tag_store :: "(string \<Rightarrow> S3Tag list option) S3Client" where
  "tag_store =
     \<lparr>ListObjectsV2 = (\<lambda>s b p dl tok. Inl (StoreError ''NotImplemented'')),
      DeleteObjects = (\<lambda>s b ks. Inl (StoreError ''NotImplemented'')),
      GetObjectTagging =
        (\<lambda>s b k. case s k of None \<Rightarrow> Inl (StoreError ''NoSuchKey'') | Some ts \<Rightarrow> Inr ts),
      PutObjectTagging =
        (\<lambda>s b k ts. case s k of
                       None \<Rightarrow> Inl (StoreError ''NoSuchKey'')
                     | Some _ \<Rightarrow> Inr (s(k \<mapsto> ts)))\<rparr>"

text \<open>
  A store that answers a listing page by page, as ListObjectsV2 is documented: the pages
  are its state, each the \<^verbatim>\<open>Contents\<close> and \<^verbatim>\<open>CommonPrefixes\<close> of one answer. A request without
  a token gets the first page; an answer is truncated when a page follows, and then
  \<^verbatim>\<open>NextContinuationToken\<close> is the cursor of that page; \<^verbatim>\<open>ContinuationToken\<close> repeats the token
  of the request. The cursor of page \<open>i\<close> is \<open>i\<close> plus signs.
\<close>

definition paged_store :: "(S3Object list option \<times> string list option) list S3Client" where
  "paged_store =
     \<lparr>ListObjectsV2 =
        (\<lambda>pages b p dl tok.
           let i = (case tok of None \<Rightarrow> 0 | Some t \<Rightarrow> length t) in
           if i < length pages
           then Inr \<lparr>Contents = fst (pages ! i), CommonPrefixes = snd (pages ! i),
                     IsTruncated = (Suc i < length pages), ContinuationToken = tok,
                     NextContinuationToken =
                       (if Suc i < length pages then Some (replicate (Suc i) CHR ''+'')
                        else None),
                     Name = b\<rparr>
           else Inl (StoreError ''The continuation token provided is incorrect'')),
      DeleteObjects = (\<lambda>s b ks. Inl (StoreError ''NotImplemented'')),
      GetObjectTagging = (\<lambda>s b k. Inl (StoreError ''NotImplemented'')),
      PutObjectTagging = (\<lambda>s b k ts. Inl (StoreError ''NotImplemented''))\<rparr>"

text \<open>
  A store of flat keys, its state the keys in listing order, answering at most \<open>max_keys\<close>
  keys a page. A listing without delimiter answers the keys that start with the prefix
  and come after the key named by the token, with no common prefixes; a multi-key
  delete removes the keys.
\<close>

definition flat_store :: "nat \<Rightarrow> string list S3Client" where
  "flat_store max_keys =
     \<lparr>ListObjectsV2 =
        (\<lambda>ks b p dl tok.
           case dl of
             Some _ \<Rightarrow> Inl (StoreError ''NotImplemented'')
           | None \<Rightarrow>
               let matching =
                     filter (prefix p)
                       (case tok of None \<Rightarrow> ks | Some t \<Rightarrow> drop 1 (dropWhile (\<lambda>k. k \<noteq> t) ks));
                   page = take max_keys matching
               in Inr \<lparr>Contents = Some (map (\<lambda>k. \<lparr>Key = k, LastModified = [], Size = 0\<rparr>) page),
                       CommonPrefixes = None,
                       IsTruncated = (max_keys < length matching),
                       ContinuationToken = tok,
                       NextContinuationToken =
                         (if max_keys < length matching \<and> page \<noteq> [] then Some (last page)
                          else None),
                       Name = b\<rparr>),
      DeleteObjects = (\<lambda>ks b del. Inr (filter (\<lambda>k. k \<notin> set del) ks)),
      GetObjectTagging = (\<lambda>s b k. Inl (StoreError ''NotImplemented'')),
      PutObjectTagging = (\<lambda>s b k ts. Inl (StoreError ''NotImplemented''))\<rparr>"

text \<open>
  What is asked of a store for the tag set read after a write: a put that is accepted
  is what the next get of that key answers.
\<close>

definition read_your_writes :: "'s S3Client \<Rightarrow> bool" where
  "read_your_writes client =
     (\<forall>s b k ts s'. PutObjectTagging client s b k ts = Inr s'
        \<longrightarrow> GetObjectTagging client s' b k = Inr ts)"

text \<open>A drive with tagging enabled and a session that has not listed anything yet.\<close>

definition drive1 :: S3Provider where
  "drive1 =
     \<lparr>data_id = ''drive1'', Bucket = ''bucket'',
      data_bucketUrl = ''https://bucket.s3.eu-west-1.amazonaws.com'', enableTags = True,
      ROOT_FOLDER = \<lparr>fullPath = [], name = [], parent = [], createdAt = None,
                      bucketName = [], bucketUrl = []\<rparr>,
      user_email = Some ''user@example.org'', mime_lookup = (\<lambda>k. None),
      getSignedUrl = (\<lambda>b k. ''https://signed.example.org/'' @ b @ ''/'' @ k)\<rparr>"

definition session0 :: "'s \<Rightarrow> 's world" where
  "session0 s =
     \<lparr>remote = s, requests = [], toasts = [], files = None, folders = None,
      loading = False, currentFolder = None, localStorage = None\<rparr>"

text \<open>A file record for the object with the given key.\<close>

definition file_at :: "string \<Rightarrow> DriveFile" where
  "file_at k =
     \<lparr>fullPath = k, name = leafName k, parent = [], createdAt = None, bucketName = ''bucket'',
      bucketUrl = ''https://bucket.s3.eu-west-1.amazonaws.com'', size = ''0'',
      contentType = [], url = []\<rparr>"

text \<open>A tag store holding one object, tagged \<open>a = 1\<close>.\<close>

definition tags1 :: "string \<Rightarrow> S3Tag list option" where
  "tags1 = [''docs/a.txt'' \<mapsto> [\<lparr>TagKey = ''a'', TagValue = ''1''\<rparr>]]"

text \<open>The same store with credentials that may read tags and not write them.\<close>

definition read_only_store :: "(string \<Rightarrow> S3Tag list option) S3Client" where
  "read_only_store =
     tag_store\<lparr>PutObjectTagging := (\<lambda>s b k ts. Inl (StoreError ''AccessDenied''))\<rparr>"

text \<open>An indexed folder with the given path and parent.\<close>

definition folder_at :: "string \<Rightarrow> string \<Rightarrow> DriveFolder" where
  "folder_at p par =
     \<lparr>fullPath = p, name = leafName (butlast p), parent = par,
      createdAt = Some ''2024-01-01T00:00:00.000Z'', bucketName = ''bucket'',
      bucketUrl = ''https://bucket.s3.eu-west-1.amazonaws.com''\<rparr>"

subsection \<open>What an operation may change\<close>

text \<open>
  The requests of the recursive delete in bucket \<open>B\<close>: a listing with neither delimiter
  nor continuation token, or a multi-key delete.
\<close>

definition deleter_request :: "string \<Rightarrow> request \<Rightarrow> bool" where
  "deleter_request B r =
     (case r of
        ListObjectsV2Command b p dl tok \<Rightarrow> b = B \<and> dl = None \<and> tok = None
      | DeleteObjectsCommand b ks \<Rightarrow> b = B
      | _ \<Rightarrow> False)"

text \<open>
  \<open>w'\<close> is \<open>w\<close> after some such requests: only the store and the list of requests differ,
  and the list has grown by requests of the recursive delete.
\<close>

definition extends :: "string \<Rightarrow> 's world \<Rightarrow> 's world \<Rightarrow> bool" where
  "extends B w w' \<longleftrightarrow>
     (\<exists>s' rs. w' = w\<lparr>remote := s', requests := requests w @ rs\<rparr>
        \<and> list_all (deleter_request B) rs)"

subsection \<open>Listings to run the effects on\<close>

text \<open>
  A listing of \<^verbatim>\<open>docs/\<close> in two pages, each with one file and one folder prefix, and a
  listing in one page whose only entry is the folder prefix \<^verbatim>\<open>docs/reports/\<close>.
\<close>

definition two_pages :: "(S3Object list option \<times> string list option) list" where
  "two_pages =
     [(Some [\<lparr>Key = ''docs/a.txt'', LastModified = ''2024-01-01T00:00:00.000Z'', Size = 12\<rparr>],
       Some [''docs/x/'']),
      (Some [\<lparr>Key = ''docs/b.txt'', LastModified = ''2024-01-02T00:00:00.000Z'', Size = 7\<rparr>],
       Some [''docs/y/''])]"

definition reports_page :: "(S3Object list option \<times> string list option) list" where
  "reports_page = [(None, Some [''docs/reports/''])]"

text \<open>The session of a user who has just navigated to the folder \<^verbatim>\<open>docs\<close>.\<close>

definition docs_session :: "'s \<Rightarrow> 's world" where
  "docs_session s = set_currentFolder drive1 (Some ''docs'') (session0 s)"

text \<open>
  The session of a user who, in the folder \<^verbatim>\<open>docs\<close>, has created the folder \<^verbatim>\<open>reports\<close> and
  then navigates to \<^verbatim>\<open>docs\<close> again.
\<close>

definition reports_indexed :: "'s \<Rightarrow> 's world" where
  "reports_indexed s =
     set_currentFolder drive1 (Some ''docs'')
       (snd (addFolder drive1 ''reports'' ''2024-01-01T00:00:00.000Z'' (docs_session s)))"

text \<open>
  A store of flat keys that rolls the keys under a prefix up to their next slash in every
  listing, in one page: the keys with no further slash are the contents, the others are
  grouped under common prefixes.
\<close>

definition grouping_store :: "string list S3Client" where
  "grouping_store =
     \<lparr>ListObjectsV2 =
        (\<lambda>ks b p dl tok.
           let matching = filter (prefix p) ks;
               direct = filter (\<lambda>k. CHR ''/'' \<notin> set (drop (length p) k)) matching;
               nested = filter (\<lambda>k. CHR ''/'' \<in> set (drop (length p) k)) matching
           in Inr \<lparr>Contents = Some (map (\<lambda>k. \<lparr>Key = k, LastModified = [], Size = 0\<rparr>) direct),
                   CommonPrefixes =
                     Some (remdups
                       (map (\<lambda>k. p @ takeWhile (\<lambda>ch. ch \<noteq> CHR ''/'') (drop (length p) k) @ ''/'')
                          nested)),
                   IsTruncated = False, ContinuationToken = tok,
                   NextContinuationToken = None, Name = b\<rparr>),
      DeleteObjects = (\<lambda>ks b del. Inr (filter (\<lambda>k. k \<notin> set del) ks)),
      GetObjectTagging = (\<lambda>s b k. Inl (StoreError ''NotImplemented'')),
      PutObjectTagging = (\<lambda>s b k ts. Inl (StoreError ''NotImplemented''))\<rparr>"

section \<open>Properties\<close>

subsection \<open>Bookkeeping of the state, and the stores\<close>

lemma world_simps [simp]:
  "requests (sent r w) = requests w @ [r]" "remote (sent r w) = remote w"
  "toasts (sent r w) = toasts w" "files (sent r w) = files w" "folders (sent r w) = folders w"
  "localStorage (sent r w) = localStorage w" "currentFolder (sent r w) = currentFolder w"
  "loading (sent r w) = loading w"
  "requests (toast_error m w) = requests w" "remote (toast_error m w) = remote w"
  "toasts (toast_error m w) = toasts w @ [m]" "files (toast_error m w) = files w"
  "folders (toast_error m w) = folders w"
  "localStorage (toast_error m w) = localStorage w"
  "currentFolder (toast_error m w) = currentFolder w"
  "loading (toast_error m w) = loading w"
  by (simp_all add: sent_def toast_error_def)


lemma tag_store_simps [simp]:
  "GetObjectTagging tag_store s b k =
     (case s k of None \<Rightarrow> Inl (StoreError ''NoSuchKey'') | Some ts \<Rightarrow> Inr ts)"
  "PutObjectTagging tag_store s b k ts =
     (case s k of None \<Rightarrow> Inl (StoreError ''NoSuchKey'') | Some _ \<Rightarrow> Inr (s(k \<mapsto> ts)))"
  by (simp_all add: tag_store_def)

lemma read_your_writes_tag_store: "read_your_writes tag_store"
  by (auto simp: read_your_writes_def split: option.splits)

lemma example_simps [simp]:
  "Bucket drive1 = ''bucket''" "enableTags drive1" "fullPath (file_at k) = k"
  "remote (session0 s) = s" "requests (session0 s) = []" "toasts (session0 s) = []"
  by (simp_all add: drive1_def file_at_def session0_def)

lemma read_only_store_simps [simp]:
  "GetObjectTagging read_only_store s b k =
     (case s k of None \<Rightarrow> Inl (StoreError ''NoSuchKey'') | Some ts \<Rightarrow> Inr ts)"
  "PutObjectTagging read_only_store s b k ts = Inl (StoreError ''AccessDenied'')"
  by (simp_all add: read_only_store_def tag_store_def)

lemma get_tags1 [simp]:
  "tags1 ''docs/a.txt'' = Some [\<lparr>TagKey = ''a'', TagValue = ''1''\<rparr>]"
  by (simp add: tags1_def)

subsection \<open>Trimming\<close>






subsection \<open>Tags: what each operation sends and returns\<close>





lemma removeTags_requests:
  "GetObjectTagging c (remote w) (Bucket d) (fullPath file) = Inr ts \<Longrightarrow>
   requests (snd (removeTags c d file k w)) =
     requests w @ [GetObjectTaggingCommand (Bucket d) (fullPath file),
                   PutObjectTaggingCommand (Bucket d) (fullPath file)
                     (filter (\<lambda>tag. TagKey tag \<noteq> k) ts)]"
  by (simp add: removeTags_def Let_def split: sum.splits)

lemma removeTags_remote:
  "remote (snd (removeTags c d file k w)) =
     (case GetObjectTagging c (remote w) (Bucket d) (fullPath file) of
        Inl err \<Rightarrow> remote w
      | Inr ts \<Rightarrow>
          (case PutObjectTagging c (remote w) (Bucket d) (fullPath file)
                  (filter (\<lambda>tag. TagKey tag \<noteq> k) ts) of
             Inl err \<Rightarrow> remote w
           | Inr s' \<Rightarrow> s'))"
  by (simp add: removeTags_def Let_def split: sum.splits)







text \<open>
  Claim C7. On a store that answers a get with the tag set of the last accepted put, the
  tag set of the file read after two calls of \<^verbatim>\<open>removeTags\<close> with the same key is the one read
  after one call. When the get is answered, a call sends the get and then one put of the
  fetched set without the tags of that key; when no tag has the key, the set put is
  the fetched set itself.
\<close>

theorem removeTags_twice_as_once:
  "(read_your_writes c \<longrightarrow>
      GetObjectTagging c (remote (snd (removeTags c d file k (snd (removeTags c d file k w)))))
        (Bucket d) (fullPath file) =
      GetObjectTagging c (remote (snd (removeTags c d file k w))) (Bucket d) (fullPath file))
   \<and> (\<forall>ts. GetObjectTagging c (remote w) (Bucket d) (fullPath file) = Inr ts \<longrightarrow>
        requests (snd (removeTags c d file k w)) =
          requests w @ [GetObjectTaggingCommand (Bucket d) (fullPath file),
                        PutObjectTaggingCommand (Bucket d) (fullPath file)
                          (filter (\<lambda>tag. TagKey tag \<noteq> k) ts)]
        \<and> (list_all (\<lambda>tag. TagKey tag \<noteq> k) ts \<longrightarrow>
             last (requests (snd (removeTags c d file k w))) =
               PutObjectTaggingCommand (Bucket d) (fullPath file) ts))"
proof (intro conjI impI allI)
  assume ryw: "read_your_writes c"
  let ?w1 = "snd (removeTags c d file k w)"
  let ?get = "\<lambda>s. GetObjectTagging c s (Bucket d) (fullPath file)"
  let ?put = "\<lambda>s ts. PutObjectTagging c s (Bucket d) (fullPath file) ts"
  let ?f = "filter (\<lambda>tag. TagKey tag \<noteq> k)"
  show "?get (remote (snd (removeTags c d file k ?w1))) = ?get (remote ?w1)"
  proof (cases "?get (remote w)")
    case (Inl err)
    then have "remote ?w1 = remote w" by (simp add: removeTags_remote)
    then show ?thesis using Inl by (simp add: removeTags_remote)
  next
    case (Inr ts)
    show ?thesis
    proof (cases "?put (remote w) (?f ts)")
      case (Inl err)
      then have "remote ?w1 = remote w" using Inr by (simp add: removeTags_remote)
      then show ?thesis using Inl Inr by (simp add: removeTags_remote)
    next
      case put1: (Inr s1)
      then have r1: "remote ?w1 = s1" using Inr by (simp add: removeTags_remote)
      have g1: "?get s1 = Inr (?f ts)"
        using ryw put1 by (simp add: read_your_writes_def)
      show ?thesis
      proof (cases "?put s1 (?f ts)")
        case (Inl err)
        then show ?thesis using r1 g1 by (simp add: removeTags_remote)
      next
        case put2: (Inr s2)
        then have "?get s2 = Inr (?f ts)" using ryw by (simp add: read_your_writes_def)
        then show ?thesis using r1 g1 put2 by (simp add: removeTags_remote)
      qed
    qed
  qed
next
  fix ts
  assume "GetObjectTagging c (remote w) (Bucket d) (fullPath file) = Inr ts"
  then show "requests (snd (removeTags c d file k w)) =
          requests w @ [GetObjectTaggingCommand (Bucket d) (fullPath file),
                        PutObjectTaggingCommand (Bucket d) (fullPath file)
                          (filter (\<lambda>tag. TagKey tag \<noteq> k) ts)]"
    by (rule removeTags_requests)
next
  fix ts
  assume g: "GetObjectTagging c (remote w) (Bucket d) (fullPath file) = Inr ts"
    and "list_all (\<lambda>tag. TagKey tag \<noteq> k) ts"
  then have "filter (\<lambda>tag. TagKey tag \<noteq> k) ts = ts" by (simp add: list_all_iff)
  then show "last (requests (snd (removeTags c d file k w))) =
               PutObjectTaggingCommand (Bucket d) (fullPath file) ts"
    using removeTags_requests [OF g, of k] by simp
qed


theorem removeTags_twice_as_once_witness:
  "GetObjectTagging tag_store
     (remote (snd (removeTags tag_store drive1 (file_at ''docs/a.txt'') ''a''
                     (snd (removeTags tag_store drive1 (file_at ''docs/a.txt'') ''a''
                             (session0 tags1))))))
     ''bucket'' ''docs/a.txt'' = Inr []
   \<and> GetObjectTagging tag_store
       (remote (snd (removeTags tag_store drive1 (file_at ''docs/a.txt'') ''a'' (session0 tags1))))
       ''bucket'' ''docs/a.txt'' = Inr []
   \<and> requests (snd (removeTags tag_store drive1 (file_at ''docs/a.txt'') ''b'' (session0 tags1))) =
       [GetObjectTaggingCommand ''bucket'' ''docs/a.txt'',
        PutObjectTaggingCommand ''bucket'' ''docs/a.txt'' [\<lparr>TagKey = ''a'', TagValue = ''1''\<rparr>]]"
proof -
  have get: "GetObjectTagging tag_store (remote (session0 tags1)) (Bucket drive1)
               (fullPath (file_at ''docs/a.txt'')) = Inr [\<lparr>TagKey = ''a'', TagValue = ''1''\<rparr>]"
    by (simp add: tags1_def)
  have once: "GetObjectTagging tag_store
       (remote (snd (removeTags tag_store drive1 (file_at ''docs/a.txt'') ''a'' (session0 tags1))))
       ''bucket'' ''docs/a.txt'' = Inr []"
    by (simp add: removeTags_remote tags1_def)
  show ?thesis
    using removeTags_twice_as_once
            [of tag_store drive1 "file_at ''docs/a.txt''" "''a''" "session0 tags1"]
          removeTags_twice_as_once
            [of tag_store drive1 "file_at ''docs/a.txt''" "''b''" "session0 tags1"]
          read_your_writes_tag_store get once
    by simp
qed



subsection \<open>The recursive delete changes the store and the requests only\<close>

lemma extends_refl [simp]: "extends B w w"
  unfolding extends_def by (intro exI [of _ "remote w"] exI [of _ "[]"]) simp

lemma extends_trans: "extends B w w1 \<Longrightarrow> extends B w1 w2 \<Longrightarrow> extends B w w2"
  unfolding extends_def
proof (elim exE conjE)
  fix s1 rs1 s2 rs2
  assume "w1 = w\<lparr>remote := s1, requests := requests w @ rs1\<rparr>"
    "w2 = w1\<lparr>remote := s2, requests := requests w1 @ rs2\<rparr>"
    "list_all (deleter_request B) rs1" "list_all (deleter_request B) rs2"
  then show "\<exists>s' rs. w2 = w\<lparr>remote := s', requests := requests w @ rs\<rparr>
        \<and> list_all (deleter_request B) rs"
    by (intro exI [of _ s2] exI [of _ "rs1 @ rs2"]) simp
qed

lemma extends_sent: "extends B w w1 \<Longrightarrow> deleter_request B r \<Longrightarrow> extends B w (sent r w1)"
proof (rule extends_trans)
  assume "deleter_request B r"
  then show "extends B w1 (sent r w1)"
    unfolding extends_def sent_def
    by (intro exI [of _ "remote w1"] exI [of _ "[r]"]) simp
qed

lemma extends_remote: "extends B w w1 \<Longrightarrow> extends B w (w1\<lparr>remote := s\<rparr>)"
proof (rule extends_trans)
  show "extends B w1 (w1\<lparr>remote := s\<rparr>)"
    unfolding extends_def by (intro exI [of _ s] exI [of _ "[]"]) simp
qed

lemma deleter_request_simps [simp]:
  "deleter_request B (ListObjectsV2Command b p dl tok) \<longleftrightarrow> b = B \<and> dl = None \<and> tok = None"
  "deleter_request B (DeleteObjectsCommand b ks) \<longleftrightarrow> b = B"
  by (simp_all add: deleter_request_def)

lemma emptyS3Directory_extends:
  "extends B w0 w \<Longrightarrow> extends B w0 (snd (emptyS3Directory n c B P w))"
  "extends B w0 w \<Longrightarrow> extends B w0 (snd (emptyS3Directory_each n c B ps w))"
proof (induction n c B P w and n c B ps w rule: emptyS3Directory_emptyS3Directory_each.induct)
  case (1 client B P w)
  then show ?case by simp
next
  case (2 n client B P w)
  let ?w1 = "sent (ListObjectsV2Command B P None None) w"
  have x1: "extends B w0 ?w1" using "2.prems" by (simp add: extends_sent)
  show ?case
  proof (cases "ListObjectsV2 client (remote ?w1) B P None None")
    case (Inl err)
    then show ?thesis using x1 by (simp add: Let_def)
  next
    case (Inr lo)
    let ?ps = "case CommonPrefixes lo of None \<Rightarrow> [] | Some ps \<Rightarrow> ps"
    obtain r w2 where e: "emptyS3Directory_each n client B ?ps ?w1 = (r, w2)"
      by (cases "emptyS3Directory_each n client B ?ps ?w1")
    have x2: "extends B w0 w2"
      using "2.IH"(1) [OF refl Inr x1] e by simp
    show ?thesis
    proof (cases r)
      case None
      then show ?thesis using Inr e x2 by (simp add: Let_def)
    next
      case (Some a)
      show ?thesis
      proof (cases a)
        case (Threw err)
        then show ?thesis using Some Inr e x2 by (simp add: Let_def)
      next
        case (Returned u)
        show ?thesis
        proof (cases "Contents lo")
          case None
          then show ?thesis using Returned Some Inr e x2 by (simp add: Let_def)
        next
          case cs: (Some cs)
          let ?w3 = "sent (DeleteObjectsCommand B (map Key cs)) w2"
          have x3: "extends B w0 ?w3" using x2 by (simp add: extends_sent)
          show ?thesis
          proof (cases "length cs = 0")
            case True
            then show ?thesis using cs Returned Some Inr e x2 by (simp add: Let_def)
          next
            case ne: False
            show ?thesis
            proof (cases "DeleteObjects client (remote ?w3) B (map Key cs)")
              case (Inl err)
              then show ?thesis using ne cs Returned Some Inr e x3 by (simp add: Let_def)
            next
              case del: (Inr s')
              show ?thesis
              proof (cases "IsTruncated lo")
                case False
                then show ?thesis
                  using del ne cs Returned Some Inr e x3 by (simp add: Let_def extends_remote)
              next
                case True
                have "extends B w0 (snd (emptyS3Directory n client B P (?w3\<lparr>remote := s'\<rparr>)))"
                  using "2.IH"(2) [OF refl Inr e [symmetric] Some Returned cs ne refl del True]
                        x3
                  by (simp add: extends_remote)
                then show ?thesis
                  using True del ne cs Returned Some Inr e by (simp add: Let_def)
              qed
            qed
          qed
        qed
      qed
    qed
  qed
next
  case (3 n client B w)
  then show ?case by simp
next
  case (4 n client B p ps w)
  obtain r w1 where e: "emptyS3Directory n client B p w = (r, w1)"
    by (cases "emptyS3Directory n client B p w")
  have x1: "extends B w0 w1" using "4.IH"(1) [OF "4.prems"] e by simp
  show ?case
  proof (cases r)
    case None
    then show ?thesis using e x1 by simp
  next
    case (Some a)
    show ?thesis
    proof (cases a)
      case (Threw err)
      then show ?thesis using Some e x1 by simp
    next
      case (Returned u)
      then show ?thesis
        using "4.IH"(2) [OF e [symmetric] Some Returned x1] Some e by simp
    qed
  qed
qed


subsection \<open>The folder index\<close>

lemma str_includes_iff: "str_includes s t \<longleftrightarrow> (\<exists>pre post. s = pre @ t @ post)"
proof -
  have "str_includes s t \<longleftrightarrow> sublist t s"
    by (induction s) (simp_all add: sublist_Cons_right)
  then show ?thesis by (simp add: sublist_def)
qed

lemma extends_fields:
  assumes "extends B w w'"
  shows "localStorage w' = localStorage w" "folders w' = folders w" "files w' = files w"
    "toasts w' = toasts w" "loading w' = loading w" "currentFolder w' = currentFolder w"
  using assms by (auto simp: extends_def)

lemma removeFolder_localStorage:
  "localStorage (snd (removeFolder n c d folder w)) =
     map_option (filter (\<lambda>f. \<not> str_includes (fullPath f) (fullPath folder))) (localStorage w)"
proof -
  let ?w1 = "w\<lparr>folders := map_option (filter (\<lambda>f. fullPath f \<noteq> fullPath folder)) (folders w)\<rparr>"
  let ?w2 = "case localStorage ?w1 of None \<Rightarrow> ?w1
    | Some stored \<Rightarrow> ?w1\<lparr>localStorage :=
         Some (filter (\<lambda>f. \<not> str_includes (fullPath f) (fullPath folder)) stored)\<rparr>"
  have "localStorage (snd (removeFolder n c d folder w)) = localStorage ?w2"
    unfolding removeFolder_def Let_def
    by (rule extends_fields(1) [OF emptyS3Directory_extends(1) [OF extends_refl]])
  then show ?thesis by (simp split: option.splits)
qed

text \<open>
  Claim C4. Whatever the store answers, and also when the recursive delete that
  follows fails or has not returned, \<^verbatim>\<open>removeFolder\<close> leaves in the persisted index exactly
  the entries whose \<^verbatim>\<open>fullPath\<close> does not contain the removed folder's \<^verbatim>\<open>fullPath\<close> at any
  position, in their order. So the entry itself and every entry whose path is
  \<open>pre @ fullPath folder @ post\<close> are removed, also when \<open>pre\<close> is not empty (containment,
  not prefix match). An absent item stays absent.
\<close>

theorem removeFolder_prunes_by_containment:
  "localStorage (snd (removeFolder n c d folder w)) =
     map_option
       (filter (\<lambda>f. \<not> (\<exists>pre post. fullPath f = pre @ fullPath folder @ post)))
       (localStorage w)
   \<and> (\<forall>stored f pre post.
         localStorage w = Some stored \<and> fullPath f = pre @ fullPath folder @ post \<longrightarrow>
         (\<exists>kept. localStorage (snd (removeFolder n c d folder w)) = Some kept
                  \<and> f \<notin> set kept \<and> set kept \<subseteq> set stored))"
  by (auto simp: removeFolder_localStorage str_includes_iff)

theorem removeFolder_prunes_by_containment_witness:
  "localStorage
     (snd (removeFolder 3 (flat_store 2) drive1 (folder_at ''a/'' [])
             ((session0 [''a/x'', ''a/y'', ''a/z'', ''ba/x''])
                \<lparr>localStorage :=
                   Some [folder_at ''a/'' [], folder_at ''ba/'' [], folder_at ''a/b/'' ''a/'',
                         folder_at ''c/'' []]\<rparr>))) =
     Some [folder_at ''c/'' []]"
proof -
  have st: "localStorage ((session0 [''a/x'', ''a/y'', ''a/z'', ''ba/x''])
                \<lparr>localStorage :=
                   Some [folder_at ''a/'' [], folder_at ''ba/'' [], folder_at ''a/b/'' ''a/'',
                         folder_at ''c/'' []]\<rparr>) =
      Some [folder_at ''a/'' [], folder_at ''ba/'' [], folder_at ''a/b/'' ''a/'',
                         folder_at ''c/'' []]"
    by simp
  have fp: "\<And>p q. fullPath (folder_at p q) = p" by (simp add: folder_at_def)
  show ?thesis
    using removeFolder_prunes_by_containment
            [of 3 "flat_store 2" drive1 "folder_at ''a/'' []"
                "(session0 [''a/x'', ''a/y'', ''a/z'', ''ba/x''])
                \<lparr>localStorage :=
                   Some [folder_at ''a/'' [], folder_at ''ba/'' [], folder_at ''a/b/'' ''a/'',
                         folder_at ''c/'' []]\<rparr>", THEN conjunct1, folded str_includes_iff]
    by (simp add: st fp)
qed

subsection \<open>Listing a folder\<close>

lemma setFiles_append_fields [simp]:
  "folders (setFiles_append f w) = folders w"
  "localStorage (setFiles_append f w) = localStorage w"
  "requests (setFiles_append f w) = requests w"
  "remote (setFiles_append f w) = remote w"
  "currentFolder (setFiles_append f w) = currentFolder w"
  "files (setFiles_append f w) = Some ((case files w of None \<Rightarrow> [] | Some fs \<Rightarrow> fs) @ [f])"
  by (simp_all add: setFiles_append_def)

lemma add_Contents_fields [simp]:
  "folders (add_Contents d cf r cs w) = folders w"
  "localStorage (add_Contents d cf r cs w) = localStorage w"
  "requests (add_Contents d cf r cs w) = requests w"
  "remote (add_Contents d cf r cs w) = remote w"
  "currentFolder (add_Contents d cf r cs w) = currentFolder w"
  unfolding add_Contents_def by (induction cs arbitrary: w) simp_all

lemma add_Contents_files:
  "(case files (add_Contents d cf r cs w) of None \<Rightarrow> [] | Some fs \<Rightarrow> fs) =
     (case files w of None \<Rightarrow> [] | Some fs \<Rightarrow> fs) @ map (driveFile d cf r) cs"
  unfolding add_Contents_def by (induction cs arbitrary: w) simp_all

lemma list_more_fields:
  "folders (snd (list_more n c d cf r w)) = folders w
   \<and> localStorage (snd (list_more n c d cf r w)) = localStorage w
   \<and> currentFolder (snd (list_more n c d cf r w)) = currentFolder w"
  by (induction n c d cf r w rule: list_more.induct)
     (simp_all add: Let_def split: sum.splits option.splits)

lemma append_folders:
  "folders (foldl (\<lambda>w' p. w'\<lparr>folders := map_option (\<lambda>fs. fs @ [g p]) (folders w')\<rparr>) w ps) =
     map_option (\<lambda>fs. fs @ map g ps) (folders w)
   \<and> localStorage (foldl (\<lambda>w' p. w'\<lparr>folders := map_option (\<lambda>fs. fs @ [g p]) (folders w')\<rparr>) w ps)
       = localStorage w"
  by (induction ps arbitrary: w) (simp_all add: option.map_comp comp_def option.map_ident)

lemma list_folder_folders:
  assumes "ListObjectsV2 c (remote w) (Bucket d) (fullPath cf) (Some ''/'') None = Inr results"
  shows "folders (snd (list_folder n c d cf w)) =
           Some (filter (\<lambda>folder. parent folder = fullPath cf
                          \<and> fullPath folder
                              \<notin> set (case CommonPrefixes results of None \<Rightarrow> [] | Some ps \<Rightarrow> ps))
                   (case localStorage w of None \<Rightarrow> [] | Some stored \<Rightarrow> stored)
                 @ map (driveFolder d cf results)
                     (case CommonPrefixes results of None \<Rightarrow> [] | Some ps \<Rightarrow> ps))"
    and "localStorage (snd (list_folder n c d cf w)) = localStorage w"
  using assms
  by (simp_all add: list_folder_def Let_def list_more_fields append_folders list_ex_iff
        split: option.splits)

lemma listing_effect_folders:
  assumes "user_email d = Some e" and "e \<noteq> []" and "currentFolder w = Some cf"
    and "files w = None"
    and "ListObjectsV2 c (remote w) (Bucket d) (fullPath cf) (Some ''/'') None = Inr results"
  shows "folders (snd (listing_effect n c d w)) =
           Some (filter (\<lambda>folder. parent folder = fullPath cf
                          \<and> fullPath folder
                              \<notin> set (case CommonPrefixes results of None \<Rightarrow> [] | Some ps \<Rightarrow> ps))
                   (case localStorage w of None \<Rightarrow> [] | Some stored \<Rightarrow> stored)
                 @ map (driveFolder d cf results)
                     (case CommonPrefixes results of None \<Rightarrow> [] | Some ps \<Rightarrow> ps))"
    and "localStorage (snd (listing_effect n c d w)) = localStorage w"
proof -
  let ?w0 = "w\<lparr>loading := True\<rparr>"
  have l: "ListObjectsV2 c (remote ?w0) (Bucket d) (fullPath cf) (Some ''/'') None = Inr results"
    using assms(5) by simp
  obtain r w1 where e: "list_folder n c d cf ?w0 = (r, w1)"
    by (cases "list_folder n c d cf ?w0")
  have "snd (listing_effect n c d w) = w1 \<or> snd (listing_effect n c d w) = w1\<lparr>loading := False\<rparr>"
    using assms(1-4) e by (simp add: listing_effect_def Let_def split: option.splits)
  moreover have "folders w1 = folders (snd (list_folder n c d cf ?w0))"
    "localStorage w1 = localStorage (snd (list_folder n c d cf ?w0))" using e by simp_all
  ultimately show "folders (snd (listing_effect n c d w)) =
           Some (filter (\<lambda>folder. parent folder = fullPath cf
                          \<and> fullPath folder
                              \<notin> set (case CommonPrefixes results of None \<Rightarrow> [] | Some ps \<Rightarrow> ps))
                   (case localStorage w of None \<Rightarrow> [] | Some stored \<Rightarrow> stored)
                 @ map (driveFolder d cf results)
                     (case CommonPrefixes results of None \<Rightarrow> [] | Some ps \<Rightarrow> ps))"
    and "localStorage (snd (listing_effect n c d w)) = localStorage w"
    using list_folder_folders [OF l, of n] by auto
qed

lemma count_driveFolder:
  "length (filter (\<lambda>f. fullPath f = p) (map (driveFolder d cf results) ps)) =
     length (filter (\<lambda>q. q = p) ps)"
  by (induction ps) (simp_all add: driveFolder_def)

lemma count_distinct: "distinct ps \<Longrightarrow> p \<in> set ps \<Longrightarrow> length (filter (\<lambda>q. q = p) ps) = 1"
  by (induction ps) (auto simp: filter_empty_conv)

lemma list_folder_answered:
  assumes "ListObjectsV2 c (remote w) (Bucket d) (fullPath cf) (Some ''/'') None = Inr results"
  shows "list_folder n c d cf w =
     list_more n c d cf results
       (foldl (\<lambda>w' p. w'\<lparr>folders := map_option (\<lambda>fs. fs @ [driveFolder d cf results p])
                                        (folders w')\<rparr>)
          ((case Contents results of
              None \<Rightarrow> sent (ListObjectsV2Command (Bucket d) (fullPath cf) (Some ''/'') None) w
            | Some cs \<Rightarrow>
                add_Contents d cf results cs
                  (sent (ListObjectsV2Command (Bucket d) (fullPath cf) (Some ''/'') None) w))
           \<lparr>folders :=
              Some (filter (\<lambda>folder. parent folder = fullPath cf
                              \<and> fullPath folder
                                  \<notin> set (case CommonPrefixes results of
                                           None \<Rightarrow> [] | Some ps \<Rightarrow> ps))
                      (case localStorage w of None \<Rightarrow> [] | Some stored \<Rightarrow> stored))\<rparr>)
          (case CommonPrefixes results of None \<Rightarrow> [] | Some ps \<Rightarrow> ps))"
  using assms
  by (simp add: list_folder_def Let_def list_ex_iff split: option.splits)

lemma decode_docs: "decodeURIComponent ''docs/'' = Inr ''docs/''"
  by (simp add: decodeURIComponent_def)

lemma docs_folder:
  "currentFolder (docs_session s) =
     Some \<lparr>fullPath = ''docs/'', name = ''docs'', parent = ''docs/'', createdAt = None,
           bucketName = ''bucket'',
           bucketUrl = ''https://bucket.s3.eu-west-1.amazonaws.com''\<rparr>"
  "files (docs_session s) = None" "folders (docs_session s) = None"
  "remote (docs_session s) = s" "requests (docs_session s) = []"
  "localStorage (docs_session s) = None"
  by (simp_all add: docs_session_def set_currentFolder_def drive1_def session0_def pop_def
        shift_def)

lemma reports_indexed_fields:
  "currentFolder (reports_indexed s) =
     Some \<lparr>fullPath = ''docs/'', name = ''docs'', parent = ''docs/'', createdAt = None,
           bucketName = ''bucket'',
           bucketUrl = ''https://bucket.s3.eu-west-1.amazonaws.com''\<rparr>"
  "files (reports_indexed s) = None"
  "remote (reports_indexed s) = s"
  "localStorage (reports_indexed s) =
     Some [\<lparr>fullPath = ''docs/reports/'', name = ''reports'', parent = ''docs/'',
            createdAt = Some ''2024-01-01T00:00:00.000Z'', bucketName = ''bucket'',
            bucketUrl = ''https://bucket.s3.eu-west-1.amazonaws.com''\<rparr>]"
  by (simp_all add: reports_indexed_def addFolder_def docs_folder decode_docs Let_def
        set_currentFolder_def drive1_def pop_def shift_def)

lemma paged_store_list:
  "ListObjectsV2 paged_store pages b p dl None =
     (if pages = [] then Inl (StoreError ''The continuation token provided is incorrect'')
      else Inr \<lparr>Contents = fst (hd pages), CommonPrefixes = snd (hd pages),
                IsTruncated = (1 < length pages), ContinuationToken = None,
                NextContinuationToken = (if 1 < length pages then Some ''+'' else None),
                Name = b\<rparr>)"
  by (cases pages) (simp_all add: paged_store_def)

lemma drive1_fields:
  "user_email drive1 = Some ''user@example.org''"
  "data_bucketUrl drive1 = ''https://bucket.s3.eu-west-1.amazonaws.com''"
  "mime_lookup drive1 k = None"
  "getSignedUrl drive1 b k = ''https://signed.example.org/'' @ b @ ''/'' @ k"
  by (simp_all add: drive1_def)

lemma toString_12: "toString 12 = ''12''"
  by code_simp

lemma two_pages_first:
  "ListObjectsV2 paged_store two_pages b p dl None =
     Inr \<lparr>Contents = Some [\<lparr>Key = ''docs/a.txt'', LastModified = ''2024-01-01T00:00:00.000Z'',
                              Size = 12\<rparr>],
          CommonPrefixes = Some [''docs/x/''], IsTruncated = True, ContinuationToken = None,
          NextContinuationToken = Some ''+'', Name = b\<rparr>"
  by (simp add: paged_store_list two_pages_def)

lemma list_more_first_page_again:
  assumes "remote w = two_pages" and "IsTruncated r" and "ContinuationToken r = None"
  shows "fst (list_more n paged_store d cf r w) = None
   \<and> requests (snd (list_more n paged_store d cf r w)) =
       requests w @ replicate n (ListObjectsV2Command (Bucket d) (fullPath cf) (Some ''/'') None)
   \<and> (case files (snd (list_more n paged_store d cf r w)) of None \<Rightarrow> [] | Some fs \<Rightarrow> fs) =
       (case files w of None \<Rightarrow> [] | Some fs \<Rightarrow> fs)
       @ replicate n
           (driveFile d cf
              \<lparr>Contents = Some [\<lparr>Key = ''docs/a.txt'',
                                  LastModified = ''2024-01-01T00:00:00.000Z'', Size = 12\<rparr>],
               CommonPrefixes = Some [''docs/x/''], IsTruncated = True,
               ContinuationToken = None, NextContinuationToken = Some ''+'',
               Name = Bucket d\<rparr>
              \<lparr>Key = ''docs/a.txt'', LastModified = ''2024-01-01T00:00:00.000Z'', Size = 12\<rparr>)"
  using assms
proof (induction n arbitrary: w r)
  case 0
  then show ?case by simp
next
  case (Suc n)
  let ?r0 = "\<lparr>Contents = Some [\<lparr>Key = ''docs/a.txt'',
                                  LastModified = ''2024-01-01T00:00:00.000Z'', Size = 12\<rparr>],
               CommonPrefixes = Some [''docs/x/''], IsTruncated = True,
               ContinuationToken = None, NextContinuationToken = Some ''+'',
               Name = Bucket d\<rparr>"
  let ?a = "\<lparr>Key = ''docs/a.txt'', LastModified = ''2024-01-01T00:00:00.000Z'', Size = 12\<rparr>"
  let ?w1 = "sent (ListObjectsV2Command (Bucket d) (fullPath cf) (Some ''/'') None) w"
  let ?w2 = "add_Contents d cf ?r0 [?a] ?w1"
  have step: "list_more (Suc n) paged_store d cf r w = list_more n paged_store d cf ?r0 ?w2"
    using Suc.prems by (simp add: Let_def two_pages_first)
  have "remote ?w2 = two_pages" using Suc.prems by simp
  from Suc.IH [OF this, of ?r0] show ?case
    unfolding step
    by (simp add: add_Contents_files replicate_append_same)
qed

text \<open>
  Claim C3. At a folder visit (a user, a current folder, files still null) whose first
  listing is answered with common prefixes that are pairwise distinct, the folders shown
  are the indexed folders of that parent whose \<^verbatim>\<open>fullPath\<close> is not among the common prefixes,
  followed by one folder for each common prefix. So for a common prefix \<open>p\<close> exactly one
  folder with \<^verbatim>\<open>fullPath\<close> \<open>p\<close> is shown, whatever the index holds, and the persisted index is
  as it was before the visit. This holds for every bound on the pages read after the
  first.
\<close>

theorem folder_merge_suppresses_indexed_duplicate:
  "user_email d = Some e \<and> e \<noteq> [] \<and> currentFolder w = Some cf \<and> files w = None
   \<and> ListObjectsV2 c (remote w) (Bucket d) (fullPath cf) (Some ''/'') None = Inr results
   \<and> CommonPrefixes results = Some ps \<and> distinct ps \<and> p \<in> set ps
   \<and> localStorage w = Some stored \<longrightarrow>
     folders (snd (listing_effect n c d w)) =
       Some (filter (\<lambda>folder. parent folder = fullPath cf \<and> fullPath folder \<notin> set ps) stored
             @ map (driveFolder d cf results) ps)
     \<and> length (filter (\<lambda>f. fullPath f = p)
                 (case folders (snd (listing_effect n c d w)) of None \<Rightarrow> [] | Some fs \<Rightarrow> fs)) = 1
     \<and> localStorage (snd (listing_effect n c d w)) = Some stored"
proof (intro impI, elim conjE)
  assume a: "user_email d = Some e" "e \<noteq> []" "currentFolder w = Some cf" "files w = None"
    "ListObjectsV2 c (remote w) (Bucket d) (fullPath cf) (Some ''/'') None = Inr results"
    and ps: "CommonPrefixes results = Some ps" "distinct ps" "p \<in> set ps"
    and st: "localStorage w = Some stored"
  have f: "folders (snd (listing_effect n c d w)) =
       Some (filter (\<lambda>folder. parent folder = fullPath cf \<and> fullPath folder \<notin> set ps) stored
             @ map (driveFolder d cf results) ps)"
    using listing_effect_folders(1) [OF a, of n] ps(1) st by simp
  have "filter (\<lambda>f. fullPath f = p)
          (filter (\<lambda>folder. parent folder = fullPath cf \<and> fullPath folder \<notin> set ps) stored) = []"
    using ps(3) by (auto simp: filter_empty_conv)
  then have one: "length (filter (\<lambda>f. fullPath f = p)
                 (case folders (snd (listing_effect n c d w)) of None \<Rightarrow> [] | Some fs \<Rightarrow> fs)) = 1"
    using f count_driveFolder [of p d cf results ps] count_distinct [OF ps(2,3)] by simp
  show "folders (snd (listing_effect n c d w)) =
       Some (filter (\<lambda>folder. parent folder = fullPath cf \<and> fullPath folder \<notin> set ps) stored
             @ map (driveFolder d cf results) ps)
     \<and> length (filter (\<lambda>f. fullPath f = p)
                 (case folders (snd (listing_effect n c d w)) of None \<Rightarrow> [] | Some fs \<Rightarrow> fs)) = 1
     \<and> localStorage (snd (listing_effect n c d w)) = Some stored"
    using f one listing_effect_folders(2) [OF a, of n] st by simp
qed


theorem folder_merge_suppresses_indexed_duplicate_witness:
  "folders (snd (listing_effect 1 paged_store drive1 (reports_indexed reports_page))) =
     Some [\<lparr>fullPath = ''docs/reports/'', name = ''reports'', parent = ''docs/'',
            createdAt = None, bucketName = ''bucket'',
            bucketUrl = ''https://bucket.s3.eu-west-1.amazonaws.com''\<rparr>]
   \<and> localStorage (snd (listing_effect 1 paged_store drive1 (reports_indexed reports_page))) =
       Some [\<lparr>fullPath = ''docs/reports/'', name = ''reports'', parent = ''docs/'',
              createdAt = Some ''2024-01-01T00:00:00.000Z'', bucketName = ''bucket'',
              bucketUrl = ''https://bucket.s3.eu-west-1.amazonaws.com''\<rparr>]"
proof -
  let ?cf = "\<lparr>fullPath = ''docs/'', name = ''docs'', parent = ''docs/'', createdAt = None,
           bucketName = ''bucket'',
           bucketUrl = ''https://bucket.s3.eu-west-1.amazonaws.com''\<rparr>"
  let ?results = "\<lparr>Contents = None, CommonPrefixes = Some [''docs/reports/''],
                IsTruncated = False, ContinuationToken = None,
                NextContinuationToken = None, Name = ''bucket''\<rparr>"
  let ?stored = "[\<lparr>fullPath = ''docs/reports/'', name = ''reports'', parent = ''docs/'',
            createdAt = Some ''2024-01-01T00:00:00.000Z'', bucketName = ''bucket'',
            bucketUrl = ''https://bucket.s3.eu-west-1.amazonaws.com''\<rparr>]"
  have hyps: "user_email drive1 = Some ''user@example.org'' \<and> ''user@example.org'' \<noteq> []
     \<and> currentFolder (reports_indexed reports_page) = Some ?cf
     \<and> files (reports_indexed reports_page) = None
     \<and> ListObjectsV2 paged_store (remote (reports_indexed reports_page)) (Bucket drive1)
          (fullPath ?cf) (Some ''/'') None = Inr ?results
     \<and> CommonPrefixes ?results = Some [''docs/reports/''] \<and> distinct [''docs/reports/'']
     \<and> ''docs/reports/'' \<in> set [''docs/reports/'']
     \<and> localStorage (reports_indexed reports_page) = Some ?stored"
    by (simp add: reports_indexed_fields paged_store_list reports_page_def drive1_def)
  show ?thesis
    using folder_merge_suppresses_indexed_duplicate [rule_format, OF hyps, of 1]
    by (simp add: driveFolder_def leafName_def pop_def drive1_def)
qed


text \<open>
  Claim C1, at a listing the code does not merge. The store holds \<^verbatim>\<open>docs/\<close> in two pages and
  answers as ListObjectsV2 is documented: the first answer is truncated, carries the
  cursor of the second page in \<^verbatim>\<open>NextContinuationToken\<close> and no \<^verbatim>\<open>ContinuationToken\<close>, since the
  request had none. The loop sends \<^verbatim>\<open>results.ContinuationToken\<close>, so every request
  is the first one again: whatever the bound \<open>n\<close> on its iterations, the effect has not
  returned, it has sent \<open>n + 1\<close> requests without a token, the files are \<open>n + 1\<close> copies of
  the first page's file, and the folders are the first page's folder only. The second
  page's file \<^verbatim>\<open>docs/b.txt\<close> and folder \<^verbatim>\<open>docs/y/\<close> are never delivered.
\<close>

theorem listing_truncated_never_reaches_second_page:
  "fst (listing_effect n paged_store drive1 (docs_session two_pages)) = None
   \<and> requests (snd (listing_effect n paged_store drive1 (docs_session two_pages))) =
       replicate (Suc n) (ListObjectsV2Command ''bucket'' ''docs/'' (Some ''/'') None)
   \<and> files (snd (listing_effect n paged_store drive1 (docs_session two_pages))) =
       Some (replicate (Suc n)
               \<lparr>fullPath = ''docs/a.txt'', name = ''a.txt'', parent = ''docs/'',
                createdAt = Some ''2024-01-01T00:00:00.000Z'', bucketName = ''bucket'',
                bucketUrl = ''https://bucket.s3.eu-west-1.amazonaws.com'', size = ''12'',
                contentType = [], url = ''https://signed.example.org/bucket/docs/a.txt''\<rparr>)
   \<and> folders (snd (listing_effect n paged_store drive1 (docs_session two_pages))) =
       Some [\<lparr>fullPath = ''docs/x/'', name = ''x'', parent = ''docs/'', createdAt = None,
              bucketName = ''bucket'',
              bucketUrl = ''https://bucket.s3.eu-west-1.amazonaws.com''\<rparr>]"
proof -
  define cf :: DriveFolder where
    "cf = \<lparr>fullPath = ''docs/'', name = ''docs'', parent = ''docs/'', createdAt = None,
            bucketName = ''bucket'',
            bucketUrl = ''https://bucket.s3.eu-west-1.amazonaws.com''\<rparr>"
  define a where
    "a = \<lparr>Key = ''docs/a.txt'', LastModified = ''2024-01-01T00:00:00.000Z'', Size = 12\<rparr>"
  define r0 where
    "r0 = \<lparr>Contents = Some [a], CommonPrefixes = Some [''docs/x/''], IsTruncated = True,
            ContinuationToken = None, NextContinuationToken = Some ''+'',
            Name = Bucket drive1\<rparr>"
  define L where "L = ListObjectsV2Command (Bucket drive1) (fullPath cf) (Some ''/'') None"
  define w0 where "w0 = (docs_session two_pages)\<lparr>loading := True\<rparr>"
  define w4 where
    "w4 = (add_Contents drive1 cf r0 [a] (sent L w0))
            \<lparr>folders := Some [driveFolder drive1 cf r0 ''docs/x/'']\<rparr>"
  have first: "ListObjectsV2 paged_store two_pages (Bucket drive1) (fullPath cf) (Some ''/'') None
                 = Inr r0"
    by (simp add: two_pages_first r0_def a_def)
  have w0: "remote w0 = two_pages" "localStorage w0 = None" "files w0 = None"
    "requests w0 = []"
    by (simp_all add: w0_def docs_folder)
  have r0: "Contents r0 = Some [a]" "CommonPrefixes r0 = Some [''docs/x/'']"
    by (simp_all add: r0_def)
  have lf: "list_folder n paged_store drive1 cf w0 = list_more n paged_store drive1 cf r0 w4"
    using list_folder_answered [of paged_store w0 drive1 cf r0 n] first
    unfolding w0(1) w0(2) r0 L_def [symmetric] w4_def
    by simp
  have w4: "remote w4 = two_pages" "requests w4 = [L]"
    "(case files w4 of None \<Rightarrow> [] | Some fs \<Rightarrow> fs) = [driveFile drive1 cf r0 a]"
    "folders w4 = Some [driveFolder drive1 cf r0 ''docs/x/'']"
    by (simp_all add: w4_def w0 add_Contents_def)
  have trunc: "IsTruncated r0" "ContinuationToken r0 = None" by (simp_all add: r0_def)
  have loop:
    "fst (list_more n paged_store drive1 cf r0 w4) = None"
    "requests (snd (list_more n paged_store drive1 cf r0 w4)) = replicate (Suc n) L"
    "(case files (snd (list_more n paged_store drive1 cf r0 w4)) of None \<Rightarrow> [] | Some fs \<Rightarrow> fs)
       = replicate (Suc n) (driveFile drive1 cf r0 a)"
    using list_more_first_page_again [of w4 r0 n drive1 cf, OF w4(1) trunc]
    by (simp_all add: w4 L_def r0_def a_def)
  obtain w5 where e: "list_more n paged_store drive1 cf r0 w4 = (None, w5)"
    using loop(1) by (cases "list_more n paged_store drive1 cf r0 w4") simp
  have le: "listing_effect n paged_store drive1 (docs_session two_pages) = (None, w5)"
    using lf e
    unfolding listing_effect_def Let_def w0_def cf_def
    by (simp add: docs_folder drive1_fields)
  have req: "requests w5 = replicate (Suc n) L" using loop(2) e by simp
  have "files w5 \<noteq> None" using loop(3) e by (auto split: option.splits)
  then have fil: "files w5 = Some (replicate (Suc n) (driveFile drive1 cf r0 a))"
    using loop(3) e by (auto split: option.splits)
  have fol: "folders w5 = Some [driveFolder drive1 cf r0 ''docs/x/'']"
    using list_more_fields [of n paged_store drive1 cf r0 w4] e w4(4) by simp
  have names: "leafName ''docs/a.txt'' = ''a.txt''" "leafName ''docs/x'' = ''x''"
    by (simp_all add: leafName_def pop_def)
  show ?thesis
    unfolding le
    using req fil fol
    by (simp add: driveFile_def driveFolder_def names toString_12 drive1_fields
          L_def cf_def r0_def a_def)
qed

subsection \<open>Store keys and leaf names\<close>

lemma split_on_nonempty [simp]: "split_on sep s \<noteq> []"
  by (induction s) (auto split: list.splits)

lemma split_on_no_sep: "sep \<notin> set s \<Longrightarrow> split_on sep s = [s]"
  by (induction s) auto

lemma split_on_append:
  "split_on sep (p @ sep # s) = split_on sep p @ split_on sep s"
  by (induction p) (auto split: list.splits)

lemma last_split_on_append:
  "last (split_on sep (p @ sep # s)) = last (split_on sep s)"
  by (simp add: split_on_append)

lemma leafName_after_slash:
  assumes "CHR ''/'' \<notin> set nm" and "p = [] \<or> last p = CHR ''/''"
  shows "leafName (p @ nm) = nm"
proof (cases "p = []")
  case True
  then show ?thesis using assms(1) by (simp add: leafName_def pop_def split_on_no_sep)
next
  case False
  then obtain q where q: "p = q @ [CHR ''/'']"
    using assms(2) append_butlast_last_id [of p] by metis
  have "split_on CHR ''/'' (q @ CHR ''/'' # nm) = split_on CHR ''/'' q @ [nm]"
    using assms(1) by (simp add: split_on_append split_on_no_sep)
  then show ?thesis by (simp add: q leafName_def pop_def)
qed

lemma hex_value_slash: "hex_value CHR ''/'' = None"
  by (simp add: hex_value_def)

lemma unescape_last:
  "unescape s = Some items \<Longrightarrow> s \<noteq> [] \<Longrightarrow> last s = CHR ''/'' \<Longrightarrow>
   items \<noteq> [] \<and> last items = (False, CHR ''/'')"
proof (induction s arbitrary: items rule: unescape.induct)
  case 1
  then show ?case by simp
next
  case (2 c s)
  show ?case
  proof (cases "c = CHR ''%''")
    case True
    then obtain h l rest where s: "s = h # l # rest"
      using "2.prems"(1) by (auto split: list.splits)
    then obtain a b where hv: "hex_value h = Some a" "hex_value l = Some b"
      using "2.prems"(1) True by (auto split: option.splits)
    obtain items' where it: "unescape rest = Some items'"
      "items = (True, char_of (16 * a + b)) # items'"
      using "2.prems"(1) True s hv by auto
    have "rest \<noteq> []"
    proof
      assume "rest = []"
      then have "l = CHR ''/''" using "2.prems"(3) s by simp
      then show False using hv(2) by (simp add: hex_value_slash)
    qed
    moreover from this have "last rest = CHR ''/''" using "2.prems"(3) s by simp
    ultimately have "items' \<noteq> [] \<and> last items' = (False, CHR ''/'')"
      using "2.IH"(1) [OF True s _ _ hv(1) hv(2) it(1)] hv by simp
    then show ?thesis using it(2) by simp
  next
    case False
    then obtain items' where it: "unescape s = Some items'" "items = (False, c) # items'"
      using "2.prems"(1) by auto
    show ?thesis
    proof (cases "s = []")
      case True
      then show ?thesis using it "2.prems"(3) by simp
    next
      case ne: False
      then have "last s = CHR ''/''" using "2.prems"(3) by simp
      from "2.IH"(2) [OF False it(1) ne this] show ?thesis using it(2) by simp
    qed
  qed
qed

lemma decode_items_last:
  "decode_items items = Some r \<Longrightarrow> items \<noteq> [] \<Longrightarrow> last items = (False, CHR ''/'') \<Longrightarrow>
   r \<noteq> [] \<and> last r = CHR ''/''"
proof (induction items arbitrary: r rule: decode_items.induct)
  case 1
  then show ?case by simp
next
  case (2 esc B items)
  show ?case
  proof (cases "\<not> esc \<or> leading_ones (of_char B) = 0")
    case True
    then obtain r' where r': "decode_items items = Some r'" "r = B # r'"
      using "2.prems"(1) by auto
    show ?thesis
    proof (cases "items = []")
      case True
      then show ?thesis using r' "2.prems"(3) by simp
    next
      case ne: False
      then have "last items = (False, CHR ''/'')" using "2.prems"(3) by simp
      from "2.IH"(1) [OF True r'(1) ne this] show ?thesis using r'(2) by simp
    qed
  next
    case False
    let ?n = "leading_ones (of_char B)"
    let ?more = "take (?n - 1) items"
    have ok: "\<not> (?n = 1 \<or> ?n > 4 \<or> length ?more < ?n - 1 \<or> \<not> list_all fst ?more
           \<or> \<not> valid_utf8 (map of_char (B # map snd ?more)))"
      using "2.prems"(1) False by (auto simp: Let_def split: if_splits)
    then obtain r' where r': "decode_items (drop (?n - 1) items) = Some r'"
      "r = (B # map snd ?more) @ r'"
      using "2.prems"(1) False by (auto simp: Let_def split: if_splits)
    have esc_more: "list_all fst ?more" using ok by simp
    have ne: "drop (?n - 1) items \<noteq> []"
    proof
      assume e: "drop (?n - 1) items = []"
      have "?more \<noteq> []" using ok False by auto
      moreover have "items = ?more" using e append_take_drop_id [of "?n - 1" items] by simp
      ultimately have "last items \<in> set ?more" using last_in_set [of ?more] by simp
      then have "fst (last items)" using esc_more by (simp add: list_all_iff)
      moreover have "items \<noteq> []" using \<open>?more \<noteq> []\<close> by auto
      ultimately show False using "2.prems"(3) by simp
    qed
    then have "last (drop (?n - 1) items) = (False, CHR ''/'')"
      using "2.prems"(3) by (cases "items = []") simp_all
    from "2.IH"(2) [OF False refl refl _ r'(1) ne this] ok
    have "r' \<noteq> [] \<and> last r' = CHR ''/''" by simp
    then show ?thesis using r'(2) by simp
  qed
qed

lemma decodeURIComponent_keeps_final_slash:
  assumes "decodeURIComponent s = Inr p" and "s \<noteq> []" and "last s = CHR ''/''"
  shows "p \<noteq> [] \<and> last p = CHR ''/''"
proof -
  from assms(1) obtain items where "unescape s = Some items" "decode_items items = Some p"
    by (auto simp: decodeURIComponent_def split: option.splits)
  then show ?thesis
    using unescape_last [OF _ assms(2,3)] decode_items_last by blast
qed


lemma reserved_slash: "\<not> list_ex reserved nm \<Longrightarrow> CHR ''/'' \<notin> set nm"
  by (auto simp: list_ex_iff reserved_def)

lemma addFile_Key_built:
  assumes "addFile_Key d file_name w = (Returned (Some K), w')"
    and "currentFolder w = Some cf"
  shows "\<not> list_ex reserved file_name"
    and "w' = w"
    and "cf = ROOT_FOLDER d \<Longrightarrow> K = file_name"
    and "cf \<noteq> ROOT_FOLDER d \<Longrightarrow> \<exists>p. decodeURIComponent (fullPath cf) = Inr p \<and> K = p @ file_name"
  using assms by (auto simp: addFile_Key_def split: if_splits sum.splits)

lemma decode_my_docs: "decodeURIComponent ''my%20docs/'' = Inr ''my docs/''"
  by code_simp

lemma my_docs_folder:
  "currentFolder (set_currentFolder drive1 (Some ''my%20docs'') (session0 s)) =
     Some \<lparr>fullPath = ''my%20docs/'', name = ''my%20docs'', parent = ''my%20docs/'',
           createdAt = None, bucketName = ''bucket'',
           bucketUrl = ''https://bucket.s3.eu-west-1.amazonaws.com''\<rparr>"
  "files (set_currentFolder drive1 (Some ''my%20docs'') (session0 s)) = None"
  by (simp_all add: set_currentFolder_def drive1_def session0_def pop_def shift_def)

lemma root_folder:
  "currentFolder (set_currentFolder drive1 None (session0 s)) = Some (ROOT_FOLDER drive1)"
  "files (set_currentFolder drive1 None (session0 s)) = None"
  by (simp_all add: set_currentFolder_def drive1_fields session0_def)

lemma root_drive1:
  "ROOT_FOLDER drive1 =
     \<lparr>fullPath = [], name = [], parent = [], createdAt = None, bucketName = [], bucketUrl = []\<rparr>"
  by (simp add: drive1_def)

lemma report_not_reserved: "\<not> list_ex reserved ''report.pdf''"
  by (simp add: reserved_def)

text \<open>
  Claim C8. For a file name with none of the characters \<^verbatim>\<open># $ [ ] * /\<close> and a current
  folder that is the root or has a path ending in a slash, every key that \<^verbatim>\<open>addFile\<close> builds
  has the file name as its leaf: what follows the last slash of the key, and so the name
  of the file that a listing builds from the key, is the file name. The key is built
  whenever no loaded file has the name and the folder is the root (the key is the name)
  or the folder's path decodes (the key is the decoded path followed by the name).
\<close>

theorem addFile_Key_leafName_roundtrip:
  "(\<not> list_ex reserved file_name \<and> currentFolder w = Some cf
      \<and> (cf = ROOT_FOLDER d \<or> (fullPath cf \<noteq> [] \<and> last (fullPath cf) = CHR ''/''))
      \<and> addFile_Key d file_name w = (Returned (Some K), w') \<longrightarrow>
        leafName K = file_name
        \<and> name (driveFile d2 cf2 results \<lparr>Key = K, LastModified = lm, Size = sz\<rparr>) = file_name)
   \<and> (\<not> list_ex reserved file_name
        \<and> (case files w of None \<Rightarrow> True | Some fs \<Rightarrow> list_all (\<lambda>f. name f \<noteq> file_name) fs)
        \<and> currentFolder w = Some cf \<and> cf \<noteq> ROOT_FOLDER d
        \<and> decodeURIComponent (fullPath cf) = Inr p \<longrightarrow>
          addFile_Key d file_name w = (Returned (Some (p @ file_name)), w))
   \<and> (\<not> list_ex reserved file_name
        \<and> (case files w of None \<Rightarrow> True | Some fs \<Rightarrow> list_all (\<lambda>f. name f \<noteq> file_name) fs)
        \<and> currentFolder w = Some (ROOT_FOLDER d) \<longrightarrow>
          addFile_Key d file_name w = (Returned (Some file_name), w))"
proof (intro conjI impI)
  assume a: "\<not> list_ex reserved file_name \<and> currentFolder w = Some cf
      \<and> (cf = ROOT_FOLDER d \<or> (fullPath cf \<noteq> [] \<and> last (fullPath cf) = CHR ''/''))
      \<and> addFile_Key d file_name w = (Returned (Some K), w')"
  then have ns: "CHR ''/'' \<notin> set file_name" by (simp add: reserved_slash)
  from a have k: "addFile_Key d file_name w = (Returned (Some K), w')"
    and cf: "currentFolder w = Some cf" by simp_all
  have leaf: "leafName K = file_name"
  proof (cases "cf = ROOT_FOLDER d")
    case True
    then have "K = file_name" using addFile_Key_built(3) [OF k cf] by simp
    then show ?thesis using leafName_after_slash [OF ns, of "[]"] by simp
  next
    case False
    then obtain p where p: "decodeURIComponent (fullPath cf) = Inr p" "K = p @ file_name"
      using addFile_Key_built(4) [OF k cf] by blast
    have "fullPath cf \<noteq> []" "last (fullPath cf) = CHR ''/''" using a False by simp_all
    then have "p \<noteq> [] \<and> last p = CHR ''/''"
      using decodeURIComponent_keeps_final_slash [OF p(1)] by simp
    then show ?thesis using leafName_after_slash [OF ns, of p] p(2) by simp
  qed
  then show "leafName K = file_name" .
  show "name (driveFile d2 cf2 results \<lparr>Key = K, LastModified = lm, Size = sz\<rparr>) = file_name"
    using leaf by (simp add: driveFile_def)
next
  assume "\<not> list_ex reserved file_name
        \<and> (case files w of None \<Rightarrow> True | Some fs \<Rightarrow> list_all (\<lambda>f. name f \<noteq> file_name) fs)
        \<and> currentFolder w = Some cf \<and> cf \<noteq> ROOT_FOLDER d
        \<and> decodeURIComponent (fullPath cf) = Inr p"
  then show "addFile_Key d file_name w = (Returned (Some (p @ file_name)), w)"
    by (auto simp: addFile_Key_def list_all_iff filter_empty_conv split: option.splits)
next
  assume "\<not> list_ex reserved file_name
        \<and> (case files w of None \<Rightarrow> True | Some fs \<Rightarrow> list_all (\<lambda>f. name f \<noteq> file_name) fs)
        \<and> currentFolder w = Some (ROOT_FOLDER d)"
  then show "addFile_Key d file_name w = (Returned (Some file_name), w)"
    by (auto simp: addFile_Key_def list_all_iff filter_empty_conv split: option.splits)
qed


theorem addFile_Key_leafName_roundtrip_witness:
  "addFile_Key drive1 ''report.pdf'' (docs_session tags1) =
     (Returned (Some ''docs/report.pdf''), docs_session tags1)
   \<and> leafName ''docs/report.pdf'' = ''report.pdf''
   \<and> addFile_Key drive1 ''report.pdf''
       (set_currentFolder drive1 (Some ''my%20docs'') (session0 tags1)) =
       (Returned (Some ''my docs/report.pdf''),
        set_currentFolder drive1 (Some ''my%20docs'') (session0 tags1))
   \<and> leafName ''my docs/report.pdf'' = ''report.pdf''
   \<and> addFile_Key drive1 ''report.pdf'' (set_currentFolder drive1 None (session0 tags1)) =
       (Returned (Some ''report.pdf''), set_currentFolder drive1 None (session0 tags1))
   \<and> leafName ''report.pdf'' = ''report.pdf''"
proof -
  let ?docs = "\<lparr>fullPath = ''docs/'', name = ''docs'', parent = ''docs/'', createdAt = None,
           bucketName = ''bucket'',
           bucketUrl = ''https://bucket.s3.eu-west-1.amazonaws.com''\<rparr>"
  let ?my = "\<lparr>fullPath = ''my%20docs/'', name = ''my%20docs'', parent = ''my%20docs/'',
           createdAt = None, bucketName = ''bucket'',
           bucketUrl = ''https://bucket.s3.eu-west-1.amazonaws.com''\<rparr>"
  let ?w1 = "docs_session tags1"
  let ?w2 = "set_currentFolder drive1 (Some ''my%20docs'') (session0 tags1)"
  let ?w3 = "set_currentFolder drive1 None (session0 tags1)"
  note t = addFile_Key_leafName_roundtrip [of "''report.pdf''" _ _ drive1]
  have h1: "\<not> list_ex reserved ''report.pdf''
      \<and> (case files ?w1 of None \<Rightarrow> True | Some fs \<Rightarrow> list_all (\<lambda>f. name f \<noteq> ''report.pdf'') fs)
      \<and> currentFolder ?w1 = Some ?docs \<and> ?docs \<noteq> ROOT_FOLDER drive1
      \<and> decodeURIComponent (fullPath ?docs) = Inr ''docs/''"
    by (simp add: reserved_def docs_folder decode_docs root_drive1)
  have h2: "\<not> list_ex reserved ''report.pdf''
      \<and> (case files ?w2 of None \<Rightarrow> True | Some fs \<Rightarrow> list_all (\<lambda>f. name f \<noteq> ''report.pdf'') fs)
      \<and> currentFolder ?w2 = Some ?my \<and> ?my \<noteq> ROOT_FOLDER drive1
      \<and> decodeURIComponent (fullPath ?my) = Inr ''my docs/''"
    by (simp add: reserved_def my_docs_folder decode_my_docs root_drive1)
  have h3: "\<not> list_ex reserved ''report.pdf''
      \<and> (case files ?w3 of None \<Rightarrow> True | Some fs \<Rightarrow> list_all (\<lambda>f. name f \<noteq> ''report.pdf'') fs)
      \<and> currentFolder ?w3 = Some (ROOT_FOLDER drive1)"
    by (simp add: reserved_def root_folder)
  note k1 = t [THEN conjunct2, THEN conjunct1, rule_format, OF h1]
  note k2 = t [THEN conjunct2, THEN conjunct1, rule_format, OF h2]
  note k3 = t [THEN conjunct2, THEN conjunct2, rule_format, OF h3]
  have g1: "\<not> list_ex reserved ''report.pdf'' \<and> currentFolder ?w1 = Some ?docs
      \<and> (?docs = ROOT_FOLDER drive1 \<or> (fullPath ?docs \<noteq> [] \<and> last (fullPath ?docs) = CHR ''/''))
      \<and> addFile_Key drive1 ''report.pdf'' ?w1 = (Returned (Some (''docs/'' @ ''report.pdf'')), ?w1)"
    using h1 k1 by simp
  have g2: "\<not> list_ex reserved ''report.pdf'' \<and> currentFolder ?w2 = Some ?my
      \<and> (?my = ROOT_FOLDER drive1 \<or> (fullPath ?my \<noteq> [] \<and> last (fullPath ?my) = CHR ''/''))
      \<and> addFile_Key drive1 ''report.pdf'' ?w2 =
           (Returned (Some (''my docs/'' @ ''report.pdf'')), ?w2)"
    using h2 k2 by simp
  have g3: "\<not> list_ex reserved ''report.pdf'' \<and> currentFolder ?w3 = Some (ROOT_FOLDER drive1)
      \<and> (ROOT_FOLDER drive1 = ROOT_FOLDER drive1
           \<or> (fullPath (ROOT_FOLDER drive1) \<noteq> [] \<and> last (fullPath (ROOT_FOLDER drive1)) = CHR ''/''))
      \<and> addFile_Key drive1 ''report.pdf'' ?w3 = (Returned (Some ''report.pdf''), ?w3)"
    using h3 k3 by simp
  note l1 = t [THEN conjunct1, rule_format, OF g1, THEN conjunct1]
  note l2 = t [THEN conjunct1, rule_format, OF g2, THEN conjunct1]
  note l3 = t [THEN conjunct1, rule_format, OF g3, THEN conjunct1]
  show ?thesis using k1 k2 k3 l1 l2 l3 by simp
qed

subsection \<open>Recursive delete\<close>

lemma flat_store_simps:
  "ListObjectsV2 (flat_store m) ks b p None None =
     Inr \<lparr>Contents = Some (map (\<lambda>k. \<lparr>Key = k, LastModified = [], Size = 0\<rparr>)
                              (take m (filter (prefix p) ks))),
          CommonPrefixes = None, IsTruncated = (m < length (filter (prefix p) ks)),
          ContinuationToken = None,
          NextContinuationToken =
            (if m < length (filter (prefix p) ks) \<and> take m (filter (prefix p) ks) \<noteq> []
             then Some (last (take m (filter (prefix p) ks))) else None),
          Name = b\<rparr>"
  "DeleteObjects (flat_store m) ks b del = Inr (filter (\<lambda>k. k \<notin> set del) ks)"
  by (simp_all add: flat_store_def Let_def)

text \<open>
  On a store of flat keys that answers at most \<open>m\<close> keys a page, the recursive delete with
  a bound above the number of keys under the prefix returns, and the store then holds
  exactly the keys that do not start with the prefix.
\<close>

lemma emptyS3Directory_flat_store:
  assumes "0 < m" and "remote w = ks" and "length (filter (prefix P) ks) < n"
  shows "fst (emptyS3Directory n (flat_store m) B P w) = Some (Returned ())
         \<and> remote (snd (emptyS3Directory n (flat_store m) B P w)) =
             filter (\<lambda>k. \<not> prefix P k) ks"
  using assms
proof (induction n arbitrary: w ks)
  case 0
  then show ?case by simp
next
  case (Suc n)
  let ?matching = "filter (prefix P) ks"
  let ?page = "take m ?matching"
  let ?w1 = "sent (ListObjectsV2Command B P None None) w"
  let ?w3 = "sent (DeleteObjectsCommand B ?page) ?w1"
  let ?ks' = "filter (\<lambda>k. k \<notin> set ?page) ks"
  have sub: "set ?page \<subseteq> set ?matching" by (rule set_take_subset)
  have keep: "filter (\<lambda>k. \<not> prefix P k) ?ks' = filter (\<lambda>k. \<not> prefix P k) ks"
    using sub by (auto intro!: filter_cong)
  show ?case
  proof (cases "?page = []")
    case True
    then have mt: "?matching = []" using Suc.prems(1) by (cases ?matching) auto
    then have "filter (\<lambda>k. \<not> prefix P k) ks = ks"
      by (simp add: filter_empty_conv filter_id_conv)
    then show ?thesis using mt Suc.prems(2) by (simp add: flat_store_simps Let_def comp_def)
  next
    case False
    show ?thesis
    proof (cases "m < length ?matching")
      case trunc: True
      have "hd ?page \<in> set ?matching" using False sub by (meson hd_in_set subsetD)
      moreover have "hd ?page \<in> set ?page" using False by (rule hd_in_set)
      ultimately have "length (filter (\<lambda>k. k \<notin> set ?page) ?matching) < length ?matching"
        by (intro length_filter_less) auto
      moreover have "filter (prefix P) ?ks' = filter (\<lambda>k. k \<notin> set ?page) ?matching"
        by (simp add: conj_commute)
      ultimately have less: "length (filter (prefix P) ?ks') < n" using Suc.prems(3) by simp
      have step: "emptyS3Directory (Suc n) (flat_store m) B P w =
                    emptyS3Directory n (flat_store m) B P (?w3\<lparr>remote := ?ks'\<rparr>)"
        using False trunc Suc.prems(2) by (simp add: flat_store_simps Let_def comp_def)
      show ?thesis
        unfolding step
        using Suc.IH [OF Suc.prems(1) _ less, of "?w3\<lparr>remote := ?ks'\<rparr>"] keep by simp
    next
      case full: False
      then have "?page = ?matching" by simp
      then have "?ks' = filter (\<lambda>k. \<not> prefix P k) ks"
        by (auto intro!: filter_cong)
      then show ?thesis
        using False full Suc.prems(2) by (simp add: flat_store_simps Let_def comp_def)
    qed
  qed
qed


text \<open>
  An answer with undefined \<^verbatim>\<open>Contents\<close> and no common prefixes (what a listing of nothing may
  carry) passes the test \<^verbatim>\<open>Contents?.length === 0\<close> and throws at \<^verbatim>\<open>Contents.length\<close>.
\<close>

lemma emptyS3Directory_undefined_Contents:
  assumes "ListObjectsV2 c (remote w) B P None None = Inr lo"
    and "Contents lo = None" and "CommonPrefixes lo = None"
  shows "emptyS3Directory (Suc n) c B P w =
           (Some (Threw (TypeError ''Cannot read properties of undefined (reading 'length')'')),
            sent (ListObjectsV2Command B P None None) w)"
  using assms by (simp add: Let_def)

text \<open>
  Claim C2 as stated fails. The store holds two keys under \<^verbatim>\<open>docs/\<close> and answers one key a
  page; its first answer is truncated and carries a continuation token. The recursive
  delete sends four requests: a listing with neither delimiter nor token, a delete of the
  first key, the same listing again, still without a token, and a delete of the second
  key. No listing is scoped by a delimiter and none carries the continuation token.
\<close>

theorem emptyS3Directory_sends_neither_delimiter_nor_token:
  "ListObjectsV2 (flat_store 1) [''docs/a'', ''docs/b'', ''x''] ''bucket'' ''docs/'' None None =
     Inr \<lparr>Contents = Some [\<lparr>Key = ''docs/a'', LastModified = [], Size = 0\<rparr>],
          CommonPrefixes = None, IsTruncated = True, ContinuationToken = None,
          NextContinuationToken = Some ''docs/a'', Name = ''bucket''\<rparr>
   \<and> emptyS3Directory 2 (flat_store 1) ''bucket'' ''docs/''
       (session0 [''docs/a'', ''docs/b'', ''x'']) =
     (Some (Returned ()),
      (session0 [''x''])
        \<lparr>requests :=
           [ListObjectsV2Command ''bucket'' ''docs/'' None None,
            DeleteObjectsCommand ''bucket'' [''docs/a''],
            ListObjectsV2Command ''bucket'' ''docs/'' None None,
            DeleteObjectsCommand ''bucket'' [''docs/b'']]\<rparr>)
   \<and> ListObjectsV2Command ''bucket'' ''docs/'' (Some ''/'') None
       \<notin> set (requests (snd (emptyS3Directory 2 (flat_store 1) ''bucket'' ''docs/''
                                  (session0 [''docs/a'', ''docs/b'', ''x'']))))
   \<and> ListObjectsV2Command ''bucket'' ''docs/'' None (Some ''docs/a'')
       \<notin> set (requests (snd (emptyS3Directory 2 (flat_store 1) ''bucket'' ''docs/''
                                  (session0 [''docs/a'', ''docs/b'', ''x'']))))"
  by (simp add: flat_store_simps numeral_2_eq_2 sent_def session0_def Let_def)

lemma grouping_store_delete:
  "DeleteObjects grouping_store ks b del = Inr (filter (\<lambda>k. k \<notin> set del) ks)"
  by (simp add: grouping_store_def)

lemma grouping_docs:
  "ListObjectsV2 grouping_store [''docs/a'', ''docs/x/b'', ''docs/x/c'', ''docs/y/d'', ''other'']
     ''bucket'' ''docs/'' None None =
   Inr \<lparr>Contents = Some [\<lparr>Key = ''docs/a'', LastModified = [], Size = 0\<rparr>],
        CommonPrefixes = Some [''docs/x/'', ''docs/y/''], IsTruncated = False,
        ContinuationToken = None, NextContinuationToken = None, Name = ''bucket''\<rparr>"
  by (simp add: grouping_store_def Let_def)

lemma grouping_children:
  "emptyS3Directory_each 2 grouping_store ''bucket'' [''docs/x/'', ''docs/y/'']
     (sent (ListObjectsV2Command ''bucket'' ''docs/'' None None)
        (session0 [''docs/a'', ''docs/x/b'', ''docs/x/c'', ''docs/y/d'', ''other''])) =
   (Some (Returned ()),
    (session0 [''docs/a'', ''other''])
      \<lparr>requests :=
         [ListObjectsV2Command ''bucket'' ''docs/'' None None,
          ListObjectsV2Command ''bucket'' ''docs/x/'' None None,
          DeleteObjectsCommand ''bucket'' [''docs/x/b'', ''docs/x/c''],
          ListObjectsV2Command ''bucket'' ''docs/y/'' None None,
          DeleteObjectsCommand ''bucket'' [''docs/y/d'']]\<rparr>)"
  by (simp add: grouping_store_def numeral_2_eq_2 sent_def session0_def Let_def)

text \<open>
  Claim C2, amended. For every store, bucket, prefix and bound on the depth, the recursive
  delete changes the store and the list of requests only, and every request it sends is
  a listing of a prefix with neither delimiter nor continuation token, or a multi-key
  delete. When the listing of the prefix is answered with defined \<^verbatim>\<open>Contents\<close> and the calls
  for the common prefixes of the answer have returned: with empty contents it returns
  in that state, without a delete request and without error; with contents and an
  accepted delete it has sent one multi-key delete of all keys of the page, after the
  calls for the common prefixes, and then returns if the page was not truncated, and
  otherwise runs again on the same prefix, from a listing without token. The calls for
  the common prefixes are made depth-first in the order of the answer, each after the
  one before has returned.
\<close>

theorem emptyS3Directory_lists_flat_and_again:
  "extends B w (snd (emptyS3Directory n c B P w))
   \<and> (\<forall>lo cs w2.
        ListObjectsV2 c (remote w) B P None None = Inr lo \<and> Contents lo = Some cs
        \<and> emptyS3Directory_each n c B (case CommonPrefixes lo of None \<Rightarrow> [] | Some ps \<Rightarrow> ps)
            (sent (ListObjectsV2Command B P None None) w) = (Some (Returned ()), w2) \<longrightarrow>
        (cs = [] \<longrightarrow> emptyS3Directory (Suc n) c B P w = (Some (Returned ()), w2))
        \<and> (\<forall>s'. cs \<noteq> [] \<and> DeleteObjects c (remote w2) B (map Key cs) = Inr s' \<longrightarrow>
              emptyS3Directory (Suc n) c B P w =
                (if IsTruncated lo
                 then emptyS3Directory n c B P
                        ((sent (DeleteObjectsCommand B (map Key cs)) w2)\<lparr>remote := s'\<rparr>)
                 else (Some (Returned ()),
                       (sent (DeleteObjectsCommand B (map Key cs)) w2)\<lparr>remote := s'\<rparr>))))
   \<and> (\<forall>p ps w1. emptyS3Directory n c B p w = (Some (Returned ()), w1) \<longrightarrow>
         emptyS3Directory_each n c B (p # ps) w = emptyS3Directory_each n c B ps w1)
   \<and> emptyS3Directory_each n c B [] w = (Some (Returned ()), w)"
  by (auto simp: emptyS3Directory_extends Let_def)

theorem emptyS3Directory_lists_flat_and_again_witness:
  "emptyS3Directory 3 grouping_store ''bucket'' ''docs/''
     (session0 [''docs/a'', ''docs/x/b'', ''docs/x/c'', ''docs/y/d'', ''other'']) =
     (Some (Returned ()),
      (session0 [''other''])
        \<lparr>requests :=
           [ListObjectsV2Command ''bucket'' ''docs/'' None None,
            ListObjectsV2Command ''bucket'' ''docs/x/'' None None,
            DeleteObjectsCommand ''bucket'' [''docs/x/b'', ''docs/x/c''],
            ListObjectsV2Command ''bucket'' ''docs/y/'' None None,
            DeleteObjectsCommand ''bucket'' [''docs/y/d''],
            DeleteObjectsCommand ''bucket'' [''docs/a'']]\<rparr>)
   \<and> emptyS3Directory 1 (flat_store 1) ''bucket'' ''none/'' (session0 [''x'']) =
       (Some (Returned ()),
        sent (ListObjectsV2Command ''bucket'' ''none/'' None None) (session0 [''x'']))
   \<and> emptyS3Directory 2 (flat_store 1) ''bucket'' ''docs/''
       (session0 [''docs/a'', ''docs/b'', ''x'']) =
       (Some (Returned ()),
        (session0 [''x''])
          \<lparr>requests :=
             [ListObjectsV2Command ''bucket'' ''docs/'' None None,
              DeleteObjectsCommand ''bucket'' [''docs/a''],
              ListObjectsV2Command ''bucket'' ''docs/'' None None,
              DeleteObjectsCommand ''bucket'' [''docs/b'']]\<rparr>)"
proof -
  let ?ks = "[''docs/a'', ''docs/x/b'', ''docs/x/c'', ''docs/y/d'', ''other'']"
  let ?lo = "\<lparr>Contents = Some [\<lparr>Key = ''docs/a'', LastModified = [], Size = 0\<rparr>],
        CommonPrefixes = Some [''docs/x/'', ''docs/y/''], IsTruncated = False,
        ContinuationToken = None, NextContinuationToken = None, Name = ''bucket''\<rparr>"
  let ?w2 = "(session0 [''docs/a'', ''other''])
      \<lparr>requests :=
         [ListObjectsV2Command ''bucket'' ''docs/'' None None,
          ListObjectsV2Command ''bucket'' ''docs/x/'' None None,
          DeleteObjectsCommand ''bucket'' [''docs/x/b'', ''docs/x/c''],
          ListObjectsV2Command ''bucket'' ''docs/y/'' None None,
          DeleteObjectsCommand ''bucket'' [''docs/y/d'']]\<rparr>"
  have h1: "ListObjectsV2 grouping_store (remote (session0 ?ks)) ''bucket'' ''docs/'' None None
              = Inr ?lo
      \<and> Contents ?lo = Some [\<lparr>Key = ''docs/a'', LastModified = [], Size = 0\<rparr>]
      \<and> emptyS3Directory_each 2 grouping_store ''bucket''
            (case CommonPrefixes ?lo of None \<Rightarrow> [] | Some ps \<Rightarrow> ps)
            (sent (ListObjectsV2Command ''bucket'' ''docs/'' None None) (session0 ?ks))
          = (Some (Returned ()), ?w2)"
    using grouping_docs grouping_children by simp
  have d1: "[\<lparr>Key = ''docs/a'', LastModified = [], Size = 0\<rparr>] \<noteq> []
      \<and> DeleteObjects grouping_store (remote ?w2) ''bucket''
            (map Key [\<lparr>Key = ''docs/a'', LastModified = [], Size = 0\<rparr>]) = Inr [''other'']"
    by (simp add: grouping_store_delete session0_def)
  note t1 = emptyS3Directory_lists_flat_and_again
              [of "''bucket''" "session0 ?ks" 2 grouping_store "''docs/''",
               THEN conjunct2, THEN conjunct1, rule_format, OF h1, THEN conjunct2,
               rule_format, OF d1]
  let ?lo0 = "\<lparr>Contents = Some [], CommonPrefixes = None, IsTruncated = False,
        ContinuationToken = None, NextContinuationToken = None, Name = ''bucket''\<rparr>"
  have h2: "ListObjectsV2 (flat_store 1) (remote (session0 [''x''])) ''bucket'' ''none/'' None None
              = Inr ?lo0
      \<and> Contents ?lo0 = Some []
      \<and> emptyS3Directory_each 0 (flat_store 1) ''bucket''
            (case CommonPrefixes ?lo0 of None \<Rightarrow> [] | Some ps \<Rightarrow> ps)
            (sent (ListObjectsV2Command ''bucket'' ''none/'' None None) (session0 [''x'']))
          = (Some (Returned ()),
             sent (ListObjectsV2Command ''bucket'' ''none/'' None None) (session0 [''x'']))"
    by (simp add: flat_store_simps)
  note t2 = emptyS3Directory_lists_flat_and_again
              [of "''bucket''" "session0 [''x'']" 0 "flat_store 1" "''none/''",
               THEN conjunct2, THEN conjunct1, rule_format, OF h2, THEN conjunct1,
               rule_format, OF refl]
  let ?ks3 = "[''docs/a'', ''docs/b'', ''x'']"
  let ?lo3 = "\<lparr>Contents = Some [\<lparr>Key = ''docs/a'', LastModified = [], Size = 0\<rparr>],
          CommonPrefixes = None, IsTruncated = True, ContinuationToken = None,
          NextContinuationToken = Some ''docs/a'', Name = ''bucket''\<rparr>"
  have h3: "ListObjectsV2 (flat_store 1) (remote (session0 ?ks3)) ''bucket'' ''docs/'' None None
              = Inr ?lo3
      \<and> Contents ?lo3 = Some [\<lparr>Key = ''docs/a'', LastModified = [], Size = 0\<rparr>]
      \<and> emptyS3Directory_each 1 (flat_store 1) ''bucket''
            (case CommonPrefixes ?lo3 of None \<Rightarrow> [] | Some ps \<Rightarrow> ps)
            (sent (ListObjectsV2Command ''bucket'' ''docs/'' None None) (session0 ?ks3))
          = (Some (Returned ()),
             sent (ListObjectsV2Command ''bucket'' ''docs/'' None None) (session0 ?ks3))"
    by (simp add: flat_store_simps)
  have d3: "[\<lparr>Key = ''docs/a'', LastModified = [], Size = 0\<rparr>] \<noteq> []
      \<and> DeleteObjects (flat_store 1)
            (remote (sent (ListObjectsV2Command ''bucket'' ''docs/'' None None) (session0 ?ks3)))
            ''bucket'' (map Key [\<lparr>Key = ''docs/a'', LastModified = [], Size = 0\<rparr>])
          = Inr [''docs/b'', ''x'']"
    by (simp add: flat_store_simps)
  note t3 = emptyS3Directory_lists_flat_and_again
              [of "''bucket''" "session0 ?ks3" 1 "flat_store 1" "''docs/''",
               THEN conjunct2, THEN conjunct1, rule_format, OF h3, THEN conjunct2,
               rule_format, OF d3]
  show ?thesis
    using t1 t2 t3
    by (simp add: numeral_3_eq_3 numeral_2_eq_2 flat_store_simps sent_def session0_def Let_def)
qed

end
